theory Spec2Isabelle
  imports Main "HOL-Library.Multiset"
begin

section \<open>The room engine of gameLogic.tsx\<close>

text \<open>
  A shallow embedding of the phase transitions of \<^verbatim>\<open>src/client/src/gameLogic.tsx\<close>:
  \<open>startGameRoom\<close>, \<open>giveHint\<close>, \<open>performResolveAction\<close> (with \<open>applyResolution\<close> and
  \<open>fullyResolveHint\<close>), \<open>moveToEndgame\<close>, \<open>availableLetters\<close> and \<open>setFinalGuess\<close>. Each
  is a pure function from a room to a new room; a \<^verbatim>\<open>throw\<close> is an \<open>Inl\<close> of the type
  \<open>error\<close>, a returned \<^verbatim>\<open>null\<close> is \<open>None\<close>, and the calls of \<^verbatim>\<open>Math.random()\<close> read
  an explicit random source. Word lengths, array indexes and counts of hints given are
  natural numbers; \<open>hintsRemaining\<close> and \<open>untilFreeHint\<close>, which the code decrements
  without a lower bound, are integers.
\<close>

subsection \<open>Data model\<close>

text \<open>A letter is a one-character string; a player or dummy number is 1-based.\<close>

type_synonym Letter = char
type_synonym PlayerNumber = nat

text \<open>
  The faults the module can raise: the three \<^verbatim>\<open>new Error(...)\<close> of the functions below,
  the class \<^verbatim>\<open>InvalidLetters\<close>, and the \<^verbatim>\<open>TypeError\<close> JavaScript raises when a
  property of \<^verbatim>\<open>undefined\<close> is read (an array read outside the array gives
  \<^verbatim>\<open>undefined\<close>).
\<close>

datatype error = WrongNumberOfPlayers | RoomNotReady | IllegalHint | InvalidLetters | TypeError

datatype LetterAndSource =
    PLAYER Letter PlayerNumber
  | WILDCARD
  | DUMMY Letter nat
  | BONUS Letter

record Hint =
  givenByPlayer :: PlayerNumber
  lettersAndSources :: "LetterAndSource list"

datatype ResolveActionKind = NONE | FLIP | GUESS Letter Letter

record ResolveAction =
  player :: PlayerNumber
  kind :: ResolveActionKind

datatype EndgameLetterChoice = ChoicePLAYER nat | ChoiceWILDCARD Letter | ChoiceBONUS Letter

text \<open>Players: every phase's player has a name; the later phases add fields to it.\<close>

record Named =
  name :: string

record StartingPlayer = Named +
  word :: "Letter list option"

record Hand =
  letters :: "Letter list"
  guesses :: "Letter option list"
  activeIndex :: nat

record HintingPlayer = Named +
  hand :: Hand
  hintsGiven :: nat

record EndgamePlayer = HintingPlayer +
  guess :: "EndgameLetterChoice list"
  committed :: bool

record Dummy =
  currentLetter :: Letter
  untilFreeHint :: int

record ResolvingHint =
  hint :: Hint
  playerActions :: "ResolveAction list"
  activeIndexes :: "nat list"

record LogEntry = ResolvingHint +
  totalHints :: int

record ProposingHint =
  proposedHints :: "PlayerNumber \<rightharpoonup> Hint"

datatype ActiveHint = PROPOSING ProposingHint | RESOLVING ResolvingHint

text \<open>
  Rooms. The field \<^verbatim>\<open>phase\<close> of the source is the type of the room here:
  \<open>StartingPhase\<close>, a hinting room (whose active hint is a \<open>ProposingHint\<close>, a
  \<open>ResolvingHint\<close>, or for \<^verbatim>\<open>HintingPhase\<close> either of them) and \<open>EndgamePhase\<close>.
\<close>

record 'p Room =
  wordLength :: nat
  players :: "'p list"

record 'p BaseStartedPhase = "'p Room" +
  dummies :: "Dummy list"
  bonuses :: "Letter list"
  hintsRemaining :: int
  hintLog :: "LogEntry list"

record 'ah HintingRoom = "HintingPlayer BaseStartedPhase" +
  activeHint :: 'ah

type_synonym StartingPhase = "StartingPlayer Room"
type_synonym ProposingHintPhase = "ProposingHint HintingRoom"
type_synonym ResolvingHintPhase = "ResolvingHint HintingRoom"
type_synonym HintingPhase = "ActiveHint HintingRoom"
type_synonym EndgamePhase = "EndgamePlayer BaseStartedPhase"

subsection \<open>JavaScript arrays\<close>

text \<open>\<^verbatim>\<open>xs[i]\<close>: the element, or \<^verbatim>\<open>undefined\<close> (\<open>None\<close>) outside the array.\<close>

definition at_index :: "'a list \<Rightarrow> int \<Rightarrow> 'a option" where
  "at_index xs i = (if 0 \<le> i \<and> i < int (length xs) then Some (xs ! nat i) else None)"

text \<open>\<^verbatim>\<open>xs.findIndex(P)\<close>: the first index whose element satisfies \<open>P\<close>, or \<open>-1\<close>.\<close>

fun findIndex :: "('a \<Rightarrow> bool) \<Rightarrow> 'a list \<Rightarrow> int" where
  "findIndex P [] = - 1"
| "findIndex P (x # xs) =
     (if P x then 0 else (let r = findIndex P xs in if r < 0 then - 1 else r + 1))"

text \<open>
  Modelled from the spec: \<^verbatim>\<open>mapNth\<close> is imported from \<^verbatim>\<open>./utils\<close>, which is not among
  the sources. Its call sites replace one player of the list (4.3 "increments the giving
  player's hintsGiven", 4.7 "installs a candidate guess list for one player"): the
  element at index \<open>n\<close> becomes \<open>f\<close> of it. What it does at an index outside the list is
  not described; the list is returned as it is here, and the theorems that depend on
  \<open>mapNth\<close> are stated for an index inside the list.
\<close>

definition mapNth :: "'a list \<Rightarrow> int \<Rightarrow> ('a \<Rightarrow> 'a) \<Rightarrow> 'a list" where
  "mapNth xs n f = (if 0 \<le> n \<and> n < int (length xs) then xs[nat n := f (xs ! nat n)] else xs)"

subsection \<open>Constants and the random source\<close>

definition MIN_PLAYERS :: nat where "MIN_PLAYERS = 2"
definition MAX_PLAYERS :: nat where "MAX_PLAYERS = 6"
definition STARTING_HINTS :: int where "STARTING_HINTS = 11"

definition LETTERS :: "Letter list" where
  "LETTERS = ''ABCDEFGHIKLMNOPRSTUWY''"

text \<open>
  The random source is the sequence of the draws a call will make. A draw \<open>r\<close> stands
  for one value of \<^verbatim>\<open>Math.random()\<close>; the index
  \<^verbatim>\<open>Math.floor(Math.random() * LETTERS.length)\<close> ranges over \<open>0..<length LETTERS\<close> and is
  \<open>r mod length LETTERS\<close> here. \<open>randomLetter\<close> returns the letter and the rest of the
  source.
\<close>

type_synonym random = "nat \<Rightarrow> nat"

definition randomLetter :: "random \<Rightarrow> Letter \<times> random" where
  "randomLetter g = (LETTERS ! (g 0 mod length LETTERS), \<lambda>n. g (Suc n))"

subsection \<open>Hinting to endgame\<close>

definition moveToEndgame :: "'ah HintingRoom \<Rightarrow> EndgamePhase" where
  "moveToEndgame room =
     \<lparr> wordLength = wordLength room,
       players = map (\<lambda>player.
           \<lparr> name = name player,
             hand = \<lparr> letters = take (wordLength room) (letters (hand player)),
                      guesses = guesses (hand player),
                      activeIndex = wordLength room \<rparr>,
             hintsGiven = hintsGiven player,
             guess = [],
             committed = False \<rparr>) (players room),
       dummies = dummies room,
       bonuses = bonuses room,
       hintsRemaining = 0,
       hintLog = hintLog room \<rparr>"

subsection \<open>Start to hinting\<close>

definition isRoomReady :: "StartingPhase \<Rightarrow> bool" where
  "isRoomReady room \<longleftrightarrow>
     list_all (\<lambda>player. word player \<noteq> None) (players room)
     \<and> length (players room) \<ge> MIN_PLAYERS
     \<and> length (players room) \<le> MAX_PLAYERS"

definition dummyLettersForFreeHint :: "nat \<Rightarrow> error + int list" where
  "dummyLettersForFreeHint playerCount =
     (if playerCount = 2 then Inr [7, 8, 9, 10]
      else if playerCount = 3 then Inr [7, 8, 9]
      else if playerCount = 4 then Inr [7, 8]
      else if playerCount = 5 then Inr [7]
      else if playerCount = 6 then Inr []
      else Inl WrongNumberOfPlayers)"

text \<open>
  \<^verbatim>\<open>shuffle\<close> is imported from \<^verbatim>\<open>./utils\<close>, which is not among the sources: it is a
  parameter of \<open>startGameRoom\<close>, a function that reads the random source and returns
  the shuffled letters and the rest of the source.
\<close>

type_synonym shuffler = "random \<Rightarrow> Letter list \<Rightarrow> Letter list \<times> random"

text \<open>
  The callback of \<^verbatim>\<open>room.players.map\<close> in \<open>startGameRoom\<close>, run from \<open>index\<close> on
  over the players left; \<open>all\<close> is \<^verbatim>\<open>room.players\<close>.
\<close>

fun startPlayers ::
  "shuffler \<Rightarrow> StartingPlayer list \<Rightarrow> nat \<Rightarrow> StartingPlayer list \<Rightarrow> random
     \<Rightarrow> error + (HintingPlayer list \<times> random)" where
  "startPlayers shuffle all index [] g = Inr ([], g)"
| "startPlayers shuffle all index (p # rest) g =
     (case at_index all (int ((index + length all - 1) mod length all)) of
        None \<Rightarrow> Inl TypeError
      | Some previous \<Rightarrow>
          (case word previous of
             None \<Rightarrow> Inl RoomNotReady
           | Some w \<Rightarrow>
               (case shuffle g w of (shuffled, g') \<Rightarrow>
                 (case startPlayers shuffle all (Suc index) rest g' of
                    Inl e \<Rightarrow> Inl e
                  | Inr (others, g'') \<Rightarrow>
                      Inr (\<lparr> name = name p,
                             hand = \<lparr> letters = shuffled,
                                      guesses = map (\<lambda>_. None) w,
                                      activeIndex = 0 \<rparr>,
                             hintsGiven = 0 \<rparr> # others, g'')))))"

text \<open>The callback of \<^verbatim>\<open>dummyLettersForFreeHint(...).map\<close>: one random letter a dummy.\<close>

fun startDummies :: "int list \<Rightarrow> random \<Rightarrow> Dummy list \<times> random" where
  "startDummies [] g = ([], g)"
| "startDummies (u # us) g =
     (case randomLetter g of (c, g') \<Rightarrow>
       (case startDummies us g' of (ds, g'') \<Rightarrow>
         (\<lparr> currentLetter = c, untilFreeHint = u \<rparr> # ds, g'')))"

definition startGameRoom :: "shuffler \<Rightarrow> random \<Rightarrow> StartingPhase \<Rightarrow> error + HintingPhase" where
  "startGameRoom shuffle g room =
     (case startPlayers shuffle (players room) 0 (players room) g of
        Inl e \<Rightarrow> Inl e
      | Inr (ps, g') \<Rightarrow>
          (case dummyLettersForFreeHint (length (players room)) of
             Inl e \<Rightarrow> Inl e
           | Inr us \<Rightarrow>
               Inr \<lparr> wordLength = wordLength room,
                     players = ps,
                     dummies = fst (startDummies us g'),
                     bonuses = [],
                     hintsRemaining = STARTING_HINTS,
                     hintLog = [],
                     activeHint = PROPOSING \<lparr> proposedHints = Map.empty \<rparr> \<rparr>))"

subsection \<open>Giving and resolving a hint\<close>

text \<open>\<^verbatim>\<open>{...room, activeHint: ah}\<close>, where the active hint may change its type.\<close>

definition withActiveHint :: "'a HintingRoom \<Rightarrow> 'b \<Rightarrow> 'b HintingRoom" where
  "withActiveHint room ah =
     \<lparr> wordLength = wordLength room,
       players = players room,
       dummies = dummies room,
       bonuses = bonuses room,
       hintsRemaining = hintsRemaining room,
       hintLog = hintLog room,
       activeHint = ah \<rparr>"

text \<open>A proposing or a resolving room returned as a \<^verbatim>\<open>HintingPhase\<close>.\<close>

definition proposingPhase :: "ProposingHintPhase \<Rightarrow> HintingPhase" where
  "proposingPhase room = withActiveHint room (PROPOSING (activeHint room))"

definition resolvingPhase :: "ResolvingHintPhase \<Rightarrow> HintingPhase" where
  "resolvingPhase room = withActiveHint room (RESOLVING (activeHint room))"

text \<open>
  The body of the sanity-check loop of \<open>giveHint\<close> for one letter: the error it throws,
  or \<open>None\<close> when the letter passes.
\<close>

fun checkSource :: "'a HintingRoom \<Rightarrow> LetterAndSource \<Rightarrow> error option" where
  "checkSource room (BONUS letter) =
     (if letter \<notin> set (bonuses room) then Some IllegalHint else None)"
| "checkSource room (DUMMY letter dummyNumber) =
     (case at_index (dummies room) (int dummyNumber - 1) of
        None \<Rightarrow> Some TypeError
      | Some dummy \<Rightarrow> if currentLetter dummy \<noteq> letter then Some IllegalHint else None)"
| "checkSource room (PLAYER letter playerNumber) =
     (case at_index (players room) (int playerNumber - 1) of
        None \<Rightarrow> Some TypeError
      | Some p \<Rightarrow>
          if at_index (letters (hand p)) (int (activeIndex (hand p))) \<noteq> Some letter
          then Some IllegalHint else None)"
| "checkSource room WILDCARD = None"

fun checkSources :: "'a HintingRoom \<Rightarrow> LetterAndSource list \<Rightarrow> error option" where
  "checkSources room [] = None"
| "checkSources room (l # ls) =
     (case checkSource room l of Some e \<Rightarrow> Some e | None \<Rightarrow> checkSources room ls)"

definition playersWithOutstandingAction :: "ResolvingHint \<Rightarrow> PlayerNumber set" where
  "playersWithOutstandingAction ah =
     fold (\<lambda>action playerNumbers. playerNumbers - {player action}) (playerActions ah)
       (fold (\<lambda>letterAndSource playerNumbers.
                case letterAndSource of
                  PLAYER _ playerNumber \<Rightarrow> insert playerNumber playerNumbers
                | _ \<Rightarrow> playerNumbers)
          (lettersAndSources (hint ah)) {})"

text \<open>The two sets of 0-based indexes \<open>fullyResolveHint\<close> collects from the hint.\<close>

definition dummiesUsed :: "Hint \<Rightarrow> int set" where
  "dummiesUsed h =
     fold (\<lambda>letterAndSource used.
             case letterAndSource of
               DUMMY _ dummyNumber \<Rightarrow> insert (int dummyNumber - 1) used
             | _ \<Rightarrow> used)
       (lettersAndSources h) {}"

definition bonusesUsed :: "Letter list \<Rightarrow> Hint \<Rightarrow> int set" where
  "bonusesUsed pool h =
     fold (\<lambda>letterAndSource used.
             case letterAndSource of
               BONUS letter \<Rightarrow> insert (findIndex (\<lambda>bonus. bonus = letter) pool) used
             | _ \<Rightarrow> used)
       (lettersAndSources h) {}"

text \<open>
  The callback of \<^verbatim>\<open>room.dummies.map\<close> in \<open>fullyResolveHint\<close>, run from \<open>index\<close> on:
  it returns the new dummies and the updated \<^verbatim>\<open>hintsRemaining\<close>.
\<close>

fun resolveDummies :: "int set \<Rightarrow> nat \<Rightarrow> Dummy list \<Rightarrow> int \<Rightarrow> random \<Rightarrow> Dummy list \<times> int" where
  "resolveDummies used index [] remaining g = ([], remaining)"
| "resolveDummies used index (dummy # rest) remaining g =
     (if int index \<in> used then
        (case randomLetter g of (c, g') \<Rightarrow>
          (case resolveDummies used (Suc index) rest
                  (if untilFreeHint dummy = 1 then remaining + 1 else remaining) g' of
             (ds, remaining') \<Rightarrow>
               (\<lparr> currentLetter = c, untilFreeHint = untilFreeHint dummy - 1 \<rparr> # ds, remaining')))
      else
        (case resolveDummies used (Suc index) rest remaining g of
           (ds, remaining') \<Rightarrow> (dummy # ds, remaining')))"

definition fullyResolveHint :: "random \<Rightarrow> ResolvingHintPhase \<Rightarrow> ProposingHintPhase" where
  "fullyResolveHint g room =
     (let logEntry = \<lparr> hint = hint (activeHint room),
                       playerActions = playerActions (activeHint room),
                       activeIndexes = activeIndexes (activeHint room),
                       totalHints = int (length (hintLog room)) + hintsRemaining room \<rparr>;
          resolved = resolveDummies (dummiesUsed (hint (activeHint room))) 0 (dummies room)
                       (hintsRemaining room - 1) g
      in \<lparr> wordLength = wordLength room,
           players = players room,
           dummies = fst resolved,
           bonuses = map snd (filter (\<lambda>(index, bonus).
                         int index \<notin> bonusesUsed (bonuses room) (hint (activeHint room)))
                       (enumerate 0 (bonuses room))),
           hintsRemaining = snd resolved,
           hintLog = hintLog room @ [logEntry],
           activeHint = \<lparr> proposedHints = Map.empty \<rparr> \<rparr>)"

definition giveHint :: "random \<Rightarrow> ProposingHintPhase \<Rightarrow> Hint \<Rightarrow> error + HintingPhase" where
  "giveHint g room h =
     (case checkSources room (lettersAndSources h) of
        Some e \<Rightarrow> Inl e
      | None \<Rightarrow>
          (let newRoom = withActiveHint
                 (room\<lparr> players := mapNth (players room) (int (givenByPlayer h) - 1)
                            (\<lambda>player. player\<lparr> hintsGiven := hintsGiven player + 1 \<rparr>) \<rparr>)
                 \<lparr> hint = h,
                   playerActions = [],
                   activeIndexes = map (\<lambda>player. activeIndex (hand player)) (players room) \<rparr>
           in if playersWithOutstandingAction (activeHint newRoom) = {}
              then Inr (proposingPhase (fullyResolveHint g newRoom))
              else Inr (resolvingPhase newRoom)))"

definition applyResolution ::
  "random \<Rightarrow> ResolvingHintPhase \<Rightarrow> ResolveAction \<Rightarrow> error + (ResolvingHintPhase \<times> random)" where
  "applyResolution g room action =
     (case kind action of
        NONE \<Rightarrow> Inr (room, g)
      | FLIP \<Rightarrow>
          (case at_index (players room) (int (player action) - 1) of
             None \<Rightarrow> Inl TypeError
           | Some p \<Rightarrow>
               (case (if int (activeIndex (hand p)) = int (wordLength room) - 1
                      then (case randomLetter g of (c, g') \<Rightarrow> (letters (hand p) @ [c], g'))
                      else (letters (hand p), g)) of
                  (ls, g') \<Rightarrow>
                    Inr (room\<lparr> players := (players room)[nat (int (player action) - 1) :=
                                   p\<lparr> hand := \<lparr> letters = ls,
                                                guesses = guesses (hand p),
                                                activeIndex = activeIndex (hand p) + 1 \<rparr> \<rparr>] \<rparr>,
                         g')))
      | GUESS guessed actual \<Rightarrow>
          (case at_index (players room) (int (player action) - 1) of
             None \<Rightarrow> Inl TypeError
           | Some p \<Rightarrow>
               (case randomLetter g of (c, g') \<Rightarrow>
                  Inr (room\<lparr> players := (players room)[nat (int (player action) - 1) :=
                                 p\<lparr> hand := \<lparr> letters = take (wordLength room) (letters (hand p)) @ [c],
                                              guesses = guesses (hand p),
                                              activeIndex = activeIndex (hand p) \<rparr> \<rparr>],
                             bonuses := (if guessed = actual then bonuses room @ [guessed]
                                         else bonuses room) \<rparr>,
                       g'))))"

definition performResolveAction ::
  "random \<Rightarrow> ResolvingHintPhase \<Rightarrow> ResolveAction \<Rightarrow> error + HintingPhase" where
  "performResolveAction g room action =
     (case applyResolution g
             (room\<lparr> activeHint := (activeHint room)
                      \<lparr> playerActions := playerActions (activeHint room) @ [action] \<rparr> \<rparr>)
             action of
        Inl e \<Rightarrow> Inl e
      | Inr (newRoom, g') \<Rightarrow>
          if playersWithOutstandingAction (activeHint newRoom) = {}
          then Inr (proposingPhase (fullyResolveHint g' newRoom))
          else Inr (resolvingPhase newRoom))"

subsection \<open>Endgame letter claiming\<close>

text \<open>The first loop of \<open>availableLetters\<close>: the player's own hand positions.\<close>

fun ownLettersUsed :: "EndgameLetterChoice list \<Rightarrow> nat set \<Rightarrow> error + nat set" where
  "ownLettersUsed [] usedOwnLetters = Inr usedOwnLetters"
| "ownLettersUsed (ChoicePLAYER index # rest) usedOwnLetters =
     (if index \<in> usedOwnLetters then Inl InvalidLetters
      else ownLettersUsed rest (insert index usedOwnLetters))"
| "ownLettersUsed (_ # rest) usedOwnLetters = ownLettersUsed rest usedOwnLetters"

text \<open>
  The second loop, over one player's guess and over all players: the state is the
  bonus letters left and \<^verbatim>\<open>wildcardAvailable\<close>. \<^verbatim>\<open>indexOf\<close> followed by
  \<^verbatim>\<open>splice(ix, 1)\<close> removes the first occurrence of the letter.
\<close>

fun sharedLettersUsed ::
  "EndgameLetterChoice list \<Rightarrow> Letter list \<times> bool \<Rightarrow> error + (Letter list \<times> bool)" where
  "sharedLettersUsed [] s = Inr s"
| "sharedLettersUsed (ChoiceWILDCARD _ # rest) (pool, wildcardAvailable) =
     (if \<not> wildcardAvailable then Inl InvalidLetters
      else sharedLettersUsed rest (pool, False))"
| "sharedLettersUsed (ChoiceBONUS letter # rest) (pool, wildcardAvailable) =
     (if letter \<notin> set pool then Inl InvalidLetters
      else sharedLettersUsed rest (remove1 letter pool, wildcardAvailable))"
| "sharedLettersUsed (ChoicePLAYER _ # rest) s = sharedLettersUsed rest s"

fun allSharedLettersUsed ::
  "EndgamePlayer list \<Rightarrow> Letter list \<times> bool \<Rightarrow> error + (Letter list \<times> bool)" where
  "allSharedLettersUsed [] s = Inr s"
| "allSharedLettersUsed (otherPlayer # rest) s =
     (case sharedLettersUsed (guess otherPlayer) s of
        Inl e \<Rightarrow> Inl e
      | Inr s' \<Rightarrow> allSharedLettersUsed rest s')"

definition availableLetters ::
  "EndgamePhase \<Rightarrow> PlayerNumber \<Rightarrow> error + EndgameLetterChoice list" where
  "availableLetters room playerNumber =
     (case at_index (players room) (int playerNumber - 1) of
        None \<Rightarrow> Inl TypeError
      | Some p \<Rightarrow>
          (case ownLettersUsed (guess p) {} of
             Inl e \<Rightarrow> Inl e
           | Inr usedOwnLetters \<Rightarrow>
               (case allSharedLettersUsed (players room) (bonuses room, True) of
                  Inl e \<Rightarrow> Inl e
                | Inr (pool, wildcardAvailable) \<Rightarrow>
                    Inr (map ChoicePLAYER (filter (\<lambda>i. i \<notin> usedOwnLetters) [0..<wordLength room])
                         @ (if wildcardAvailable then [ChoiceWILDCARD (CHR ''*'')] else [])
                         @ map ChoiceBONUS pool))))"

text \<open>
  \<open>setFinalGuess\<close> returns \<^verbatim>\<open>null\<close> (\<open>Inr None\<close>) when \<open>availableLetters\<close> throws
  \<^verbatim>\<open>InvalidLetters\<close> and throws every other error again.
\<close>

definition setFinalGuess ::
  "EndgamePhase \<Rightarrow> PlayerNumber \<Rightarrow> EndgameLetterChoice list \<Rightarrow> error + EndgamePhase option" where
  "setFinalGuess room playerNumber g =
     (let newRoom = room\<lparr> players := mapNth (players room) (int playerNumber - 1)
                                        (\<lambda>p. p\<lparr> guess := g \<rparr>) \<rparr>
      in case availableLetters newRoom playerNumber of
           Inl InvalidLetters \<Rightarrow> Inr None
         | Inl e \<Rightarrow> Inl e
         | Inr _ \<Rightarrow> Inr (Some newRoom))"

subsection \<open>Sample rooms\<close>

text \<open>
  Concrete rooms on which the theorems below are evaluated: two players, ann holding
  CAT and bob holding DOG, each with the first letter exposed, two dummies one use away
  from their free hint, and one bonus letter.
\<close>

definition demoPlayer :: "string \<Rightarrow> Letter list \<Rightarrow> HintingPlayer" where
  "demoPlayer n w =
     \<lparr> name = n,
       hand = \<lparr> letters = w, guesses = [None, None, None], activeIndex = 0 \<rparr>,
       hintsGiven = 0 \<rparr>"

definition demoRoom :: ProposingHintPhase where
  "demoRoom =
     \<lparr> wordLength = 3,
       players = [demoPlayer ''ann'' ''CAT'', demoPlayer ''bob'' ''DOG''],
       dummies = [\<lparr> currentLetter = CHR ''S'', untilFreeHint = 1 \<rparr>,
                  \<lparr> currentLetter = CHR ''T'', untilFreeHint = 1 \<rparr>],
       bonuses = ''E'',
       hintsRemaining = 5,
       hintLog = [],
       activeHint = \<lparr> proposedHints = Map.empty \<rparr> \<rparr>"

text \<open>
  Two shuffles for the evaluations (\<open>shuffle\<close> is a parameter of \<open>startGameRoom\<close>): one
  keeps the word as it is, one reverses it; neither reads the random source.
\<close>

definition keepOrder :: shuffler where
  "keepOrder g w = (w, g)"

definition backwards :: shuffler where
  "backwards g w = (rev w, g)"

text \<open>A starting room of the given word length whose players all have chosen a word.\<close>

definition demoStart :: "nat \<Rightarrow> (string \<times> Letter list) list \<Rightarrow> StartingPhase" where
  "demoStart n ps = \<lparr> wordLength = n, players = map (\<lambda>(who, w). \<lparr> name = who, word = Some w \<rparr>) ps \<rparr>"

text \<open>The sample room while the given hint is being resolved.\<close>

definition demoResolving :: "Hint \<Rightarrow> ResolvingHintPhase" where
  "demoResolving h =
     withActiveHint demoRoom \<lparr> hint = h, playerActions = [], activeIndexes = [0, 0] \<rparr>"

text \<open>
  The sample room moved to the endgame, with ann's final guess installed: her first hand
  letter and the wildcard.
\<close>

definition demoEndgame :: EndgamePhase where
  "demoEndgame =
     (moveToEndgame demoRoom)
       \<lparr> players := mapNth (players (moveToEndgame demoRoom)) 0
            (\<lambda>p. p\<lparr> guess := [ChoicePLAYER 0, ChoiceWILDCARD (CHR ''*'')] \<rparr>) \<rparr>"

section \<open>Theorems\<close>

subsection \<open>The sanity check of giveHint\<close>

lemma checkSources_None_iff:
  "checkSources room ls = None \<longleftrightarrow> (\<forall>l\<in>set ls. checkSource room l = None)"
  by (induction ls) (auto split: option.splits)




lemma checkSource_DUMMY_iff:
  "1 \<le> n \<Longrightarrow> n \<le> length (dummies room) \<Longrightarrow>
   checkSource room (DUMMY letter n) = None \<longleftrightarrow> currentLetter (dummies room ! (n - 1)) = letter"
  by (auto simp: at_index_def nat_diff_distrib' split: option.splits if_splits)







subsection \<open>Starting the game\<close>

lemma randomLetter_in_LETTERS: "fst (randomLetter g) \<in> set LETTERS"
proof -
  have "g 0 mod length LETTERS < length LETTERS"
    by (simp add: LETTERS_def)
  then have "LETTERS ! (g 0 mod length LETTERS) \<in> set LETTERS"
    by (rule nth_mem)
  then show ?thesis
    by (simp add: randomLetter_def)
qed

lemma startDummies_countdowns: "map untilFreeHint (fst (startDummies us g)) = us"
proof (induction us arbitrary: g)
  case Nil
  show ?case by simp
next
  case (Cons u us)
  obtain c g' where r: "randomLetter g = (c, g')" by force
  obtain ds g'' where d: "startDummies us g' = (ds, g'')" by force
  have "map untilFreeHint ds = us" using Cons [of g'] d by simp
  then show ?case using r d by simp
qed

lemma startDummies_letters: "set (map currentLetter (fst (startDummies us g))) \<subseteq> set LETTERS"
proof (induction us arbitrary: g)
  case Nil
  show ?case by simp
next
  case (Cons u us)
  obtain c g' where r: "randomLetter g = (c, g')" by force
  obtain ds g'' where d: "startDummies us g' = (ds, g'')" by force
  have "c \<in> set LETTERS" using randomLetter_in_LETTERS [of g] r by simp
  moreover have "set (map currentLetter ds) \<subseteq> set LETTERS" using Cons [of g'] d by simp
  ultimately show ?case using r d by simp
qed

lemma startPlayers_ready:
  assumes "list_all (\<lambda>p. word p \<noteq> None) all" and "index + length rest = length all"
  shows "\<exists>ps g'. startPlayers shuffle all index rest g = Inr (ps, g')
     \<and> length ps = length rest
     \<and> (\<forall>k<length rest.
           name (ps ! k) = name (rest ! k)
           \<and> (\<exists>g0. letters (hand (ps ! k))
                 = fst (shuffle g0 (the (word (all ! ((index + k + length all - 1) mod length all))))))
           \<and> guesses (hand (ps ! k))
               = replicate (length (the (word (all ! ((index + k + length all - 1) mod length all))))) None
           \<and> activeIndex (hand (ps ! k)) = 0
           \<and> hintsGiven (ps ! k) = 0)"
  using assms(2)
proof (induction rest arbitrary: index g)
  case Nil
  show ?case by simp
next
  case (Cons p rest)
  let ?n = "length all"
  let ?j = "(index + ?n - 1) mod ?n"
  have pos: "0 < ?n" using Cons.prems by (cases all) auto
  then have j: "?j < ?n" by simp
  then have at: "at_index all (int ?j) = Some (all ! ?j)"
    by (simp add: at_index_def)
  have "all ! ?j \<in> set all" using j by simp
  then obtain w where w: "word (all ! ?j) = Some w"
    using assms(1) by (auto simp: list_all_iff)
  obtain shuffled g1 where s: "shuffle g w = (shuffled, g1)" by force
  have "Suc index + length rest = ?n" using Cons.prems by simp
  from Cons.IH [OF this, of g1] obtain ps g2 where
    rec: "startPlayers shuffle all (Suc index) rest g1 = Inr (ps, g2)"
    and len: "length ps = length rest"
    and each: "\<forall>k<length rest.
           name (ps ! k) = name (rest ! k)
           \<and> (\<exists>g0. letters (hand (ps ! k))
                 = fst (shuffle g0 (the (word (all ! ((Suc index + k + ?n - 1) mod ?n))))))
           \<and> guesses (hand (ps ! k))
               = replicate (length (the (word (all ! ((Suc index + k + ?n - 1) mod ?n))))) None
           \<and> activeIndex (hand (ps ! k)) = 0
           \<and> hintsGiven (ps ! k) = 0"
    by blast
  let ?first = "\<lparr> name = name p,
                  hand = \<lparr> letters = shuffled, guesses = map (\<lambda>_. None) w, activeIndex = 0 \<rparr>,
                  hintsGiven = 0 \<rparr>"
  have res: "startPlayers shuffle all index (p # rest) g = Inr (?first # ps, g2)"
    using at w s rec by simp
  have "\<exists>g0. shuffled = fst (shuffle g0 w)"
    using s by (metis fst_conv)
  then have k0: "name (?first) = name p
           \<and> (\<exists>g0. letters (hand ?first) = fst (shuffle g0 (the (word (all ! ?j)))))
           \<and> guesses (hand ?first) = replicate (length (the (word (all ! ?j)))) None
           \<and> activeIndex (hand ?first) = 0 \<and> hintsGiven ?first = 0"
    using w by (simp add: map_replicate_const)
  have "\<forall>k<length (p # rest).
           name ((?first # ps) ! k) = name ((p # rest) ! k)
           \<and> (\<exists>g0. letters (hand ((?first # ps) ! k))
                 = fst (shuffle g0 (the (word (all ! ((index + k + ?n - 1) mod ?n))))))
           \<and> guesses (hand ((?first # ps) ! k))
               = replicate (length (the (word (all ! ((index + k + ?n - 1) mod ?n))))) None
           \<and> activeIndex (hand ((?first # ps) ! k)) = 0
           \<and> hintsGiven ((?first # ps) ! k) = 0"
  proof (intro allI impI)
    fix k assume "k < length (p # rest)"
    show "name ((?first # ps) ! k) = name ((p # rest) ! k)
           \<and> (\<exists>g0. letters (hand ((?first # ps) ! k))
                 = fst (shuffle g0 (the (word (all ! ((index + k + ?n - 1) mod ?n))))))
           \<and> guesses (hand ((?first # ps) ! k))
               = replicate (length (the (word (all ! ((index + k + ?n - 1) mod ?n))))) None
           \<and> activeIndex (hand ((?first # ps) ! k)) = 0
           \<and> hintsGiven ((?first # ps) ! k) = 0"
    proof (cases k)
      case 0
      with k0 show ?thesis by simp
    next
      case (Suc k')
      with \<open>k < length (p # rest)\<close> have "k' < length rest" by simp
      with each Suc show ?thesis by simp
    qed
  qed
  with res len show ?case by simp
qed

lemma startGameRoom_ready:
  assumes "list_all (\<lambda>p. word p \<noteq> None) (players room)"
  shows "\<exists>ps g'. startPlayers shuffle (players room) 0 (players room) g = Inr (ps, g')
     \<and> startGameRoom shuffle g room =
         (case dummyLettersForFreeHint (length (players room)) of
            Inl e \<Rightarrow> Inl e
          | Inr us \<Rightarrow>
              Inr \<lparr> wordLength = wordLength room, players = ps,
                    dummies = fst (startDummies us g'), bonuses = [],
                    hintsRemaining = STARTING_HINTS, hintLog = [],
                    activeHint = PROPOSING \<lparr> proposedHints = Map.empty \<rparr> \<rparr>)"
proof -
  from startPlayers_ready [OF assms, of 0 "players room" shuffle g]
  obtain ps g' where "startPlayers shuffle (players room) 0 (players room) g = Inr (ps, g')"
    by auto
  then show ?thesis
    by (simp add: startGameRoom_def)
qed

text \<open>
  C3 as stated fails for four players: the table of \<open>dummyLettersForFreeHint\<close> gives a
  four-player room the two countdowns 7 and 8, hence two dummies, not one dummy with
  countdown 8. (With the random source \<open>id\<close> the draws are 0, 1, ...: the letters A, B.)
\<close>

theorem startGameRoom_dummies_counterexample:
  "isRoomReady (demoStart 3 [(''ann'', ''CAT''), (''bob'', ''DOG''), (''cyd'', ''OWL''), (''dee'', ''BAT'')])
   \<and> map_sum id dummies
        (startGameRoom keepOrder id
           (demoStart 3 [(''ann'', ''CAT''), (''bob'', ''DOG''), (''cyd'', ''OWL''), (''dee'', ''BAT'')]))
      = Inr [\<lparr> currentLetter = CHR ''A'', untilFreeHint = 7 \<rparr>,
             \<lparr> currentLetter = CHR ''B'', untilFreeHint = 8 \<rparr>]"
  by (simp add: isRoomReady_def MIN_PLAYERS_def MAX_PLAYERS_def demoStart_def startGameRoom_def
      at_index_def keepOrder_def dummyLettersForFreeHint_def randomLetter_def LETTERS_def)

text \<open>
  C3, amended. In a starting room whose players all have a word, with 2 to 6 players,
  \<open>startGameRoom\<close> returns a room with one dummy for each countdown of the fixed table
  keyed by the player count: [7, 8, 9, 10] for 2 players, [7, 8, 9] for 3, [7, 8] for 4
  (two dummies), [7] for 5 and none for 6, each with a letter of \<open>LETTERS\<close>.
\<close>

theorem startGameRoom_dummy_schedule:
  assumes words: "list_all (\<lambda>p. word p \<noteq> None) (players room)"
    and count: "2 \<le> length (players room) \<and> length (players room) \<le> 6"
  shows "\<exists>r. startGameRoom shuffle g room = Inr r
     \<and> map untilFreeHint (dummies r)
         = (if length (players room) = 2 then [7, 8, 9, 10]
            else if length (players room) = 3 then [7, 8, 9]
            else if length (players room) = 4 then [7, 8]
            else if length (players room) = 5 then [7]
            else [])
     \<and> set (map currentLetter (dummies r)) \<subseteq> set LETTERS"
proof -
  from startGameRoom_ready [OF words, of shuffle g]
  obtain ps g' where res: "startGameRoom shuffle g room =
         (case dummyLettersForFreeHint (length (players room)) of
            Inl e \<Rightarrow> Inl e
          | Inr us \<Rightarrow>
              Inr \<lparr> wordLength = wordLength room, players = ps,
                    dummies = fst (startDummies us g'), bonuses = [],
                    hintsRemaining = STARTING_HINTS, hintLog = [],
                    activeHint = PROPOSING \<lparr> proposedHints = Map.empty \<rparr> \<rparr>)"
    by blast
  from count consider "length (players room) = 2" | "length (players room) = 3"
    | "length (players room) = 4" | "length (players room) = 5" | "length (players room) = 6"
    by linarith
  then obtain us where us: "dummyLettersForFreeHint (length (players room)) = Inr us"
    and tab: "us = (if length (players room) = 2 then [7, 8, 9, 10]
                     else if length (players room) = 3 then [7, 8, 9]
                     else if length (players room) = 4 then [7, 8]
                     else if length (players room) = 5 then [7]
                     else [])"
    by cases (simp_all add: dummyLettersForFreeHint_def)
  let ?r = "\<lparr> wordLength = wordLength room, players = ps,
                  dummies = fst (startDummies us g'), bonuses = [],
                  hintsRemaining = STARTING_HINTS, hintLog = [],
                  activeHint = PROPOSING \<lparr> proposedHints = Map.empty \<rparr> \<rparr>"
  have r: "startGameRoom shuffle g room = Inr ?r"
    using res us by simp
  have "map untilFreeHint (dummies ?r) = us"
    by (simp add: startDummies_countdowns)
  moreover have "set (map currentLetter (dummies ?r)) \<subseteq> set LETTERS"
    using startDummies_letters [of us g'] by simp
  ultimately show ?thesis
    using r tab by (simp del: set_map)
qed

theorem startGameRoom_dummy_schedule_witness:
  "list_all (\<lambda>p. word p \<noteq> None)
     (players (demoStart 3 [(''ann'', ''CAT''), (''bob'', ''DOG'')]))
   \<and> length (players (demoStart 3 [(''ann'', ''CAT''), (''bob'', ''DOG'')])) = 2
   \<and> (\<exists>r. startGameRoom backwards id (demoStart 3 [(''ann'', ''CAT''), (''bob'', ''DOG'')]) = Inr r
         \<and> map untilFreeHint (dummies r) = [7, 8, 9, 10])
   \<and> list_all (\<lambda>p. word p \<noteq> None)
     (players (demoStart 3 [(''ann'', ''CAT''), (''bob'', ''DOG''), (''cyd'', ''OWL''), (''dee'', ''BAT'')]))
   \<and> length (players
        (demoStart 3 [(''ann'', ''CAT''), (''bob'', ''DOG''), (''cyd'', ''OWL''), (''dee'', ''BAT'')])) = 4
   \<and> (\<exists>r. startGameRoom backwards id
              (demoStart 3 [(''ann'', ''CAT''), (''bob'', ''DOG''), (''cyd'', ''OWL''), (''dee'', ''BAT'')])
            = Inr r
         \<and> map untilFreeHint (dummies r) = [7, 8])"
proof -
  define two where "two = demoStart 3 [(''ann'', ''CAT''), (''bob'', ''DOG'')]"
  define four where
    "four = demoStart 3 [(''ann'', ''CAT''), (''bob'', ''DOG''), (''cyd'', ''OWL''), (''dee'', ''BAT'')]"
  have w2: "list_all (\<lambda>p. word p \<noteq> None) (players two)"
    and n2: "length (players two) = 2"
    by (simp_all add: two_def demoStart_def)
  have w4: "list_all (\<lambda>p. word p \<noteq> None) (players four)"
    and n4: "length (players four) = 4"
    by (simp_all add: four_def demoStart_def)
  have c2: "2 \<le> length (players two) \<and> length (players two) \<le> 6"
    by (simp add: n2)
  have c4: "2 \<le> length (players four) \<and> length (players four) \<le> 6"
    by (simp add: n4)
  have "\<exists>r. startGameRoom backwards id two = Inr r
         \<and> map untilFreeHint (dummies r) = [7, 8, 9, 10]"
    using startGameRoom_dummy_schedule [OF w2 c2, of backwards id] by (auto simp: n2)
  moreover have "\<exists>r. startGameRoom backwards id four = Inr r
         \<and> map untilFreeHint (dummies r) = [7, 8]"
    using startGameRoom_dummy_schedule [OF w4 c4, of backwards id] by (auto simp: n4)
  ultimately show ?thesis
    using w2 n2 w4 n4 unfolding two_def four_def by blast
qed

text \<open>
  C4 as stated fails twice. A room with a single player who has a word is not started:
  the dummy table has no entry for one player. And the guesses are one null for each
  letter of the word received, whatever \<open>wordLength\<close> is: words of three letters in a room
  of word length 5 give three nulls.
\<close>

theorem startGameRoom_hands_counterexample:
  "list_all (\<lambda>p. word p \<noteq> None) (players (demoStart 3 [(''ann'', ''CAT'')]))
   \<and> startGameRoom keepOrder id (demoStart 3 [(''ann'', ''CAT'')]) = Inl WrongNumberOfPlayers
   \<and> list_all (\<lambda>p. word p \<noteq> None) (players (demoStart 5 [(''ann'', ''CAT''), (''bob'', ''DOG'')]))
   \<and> wordLength (demoStart 5 [(''ann'', ''CAT''), (''bob'', ''DOG'')]) = 5
   \<and> map_sum id (map (guesses \<circ> hand) \<circ> players)
        (startGameRoom keepOrder id (demoStart 5 [(''ann'', ''CAT''), (''bob'', ''DOG'')]))
      = Inr [[None, None, None], [None, None, None]]"
  by (simp add: demoStart_def startGameRoom_def
      at_index_def keepOrder_def dummyLettersForFreeHint_def randomLetter_def LETTERS_def)

text \<open>
  C4, amended. For every starting room that is ready (every player has a word and there
  are 2 to 6 players) and every shuffle that permutes its argument, \<open>startGameRoom\<close>
  returns a hinting room in which the player at index \<open>i\<close> keeps the name, holds a
  permutation of the word of the player before (index \<open>(i + n - 1) mod n\<close>, so player 0
  receives the last player's word), has one null guess for each letter of that word,
  \<open>activeIndex = 0\<close> and \<open>hintsGiven = 0\<close>; the bonus list and the hint log are empty,
  \<open>hintsRemaining = 11\<close> and the active hint is Proposing with no proposed hints.
\<close>

theorem startGameRoom_deals_previous_word:
  assumes ready: "isRoomReady room"
    and permutes: "\<forall>g w. mset (fst (shuffle g w)) = mset w"
  shows "\<exists>r. startGameRoom shuffle g room = Inr r
     \<and> wordLength r = wordLength room
     \<and> length (players r) = length (players room)
     \<and> (\<forall>i<length (players room).
           name (players r ! i) = name (players room ! i)
           \<and> mset (letters (hand (players r ! i)))
               = mset (the (word (players room !
                   ((i + length (players room) - 1) mod length (players room)))))
           \<and> guesses (hand (players r ! i))
               = replicate (length (the (word (players room !
                   ((i + length (players room) - 1) mod length (players room)))))) None
           \<and> activeIndex (hand (players r ! i)) = 0
           \<and> hintsGiven (players r ! i) = 0)
     \<and> bonuses r = []
     \<and> hintsRemaining r = 11
     \<and> hintLog r = []
     \<and> activeHint r = PROPOSING \<lparr> proposedHints = Map.empty \<rparr>"
proof -
  let ?all = "players room"
  have words: "list_all (\<lambda>p. word p \<noteq> None) ?all"
    and count: "2 \<le> length ?all" "length ?all \<le> 6"
    using ready by (simp_all add: isRoomReady_def MIN_PLAYERS_def MAX_PLAYERS_def)
  from startPlayers_ready [OF words, of 0 ?all shuffle g]
  obtain ps g' where sp: "startPlayers shuffle ?all 0 ?all g = Inr (ps, g')"
    and len: "length ps = length ?all"
    and each: "\<forall>k<length ?all.
           name (ps ! k) = name (?all ! k)
           \<and> (\<exists>g0. letters (hand (ps ! k))
                 = fst (shuffle g0 (the (word (?all ! ((0 + k + length ?all - 1) mod length ?all))))))
           \<and> guesses (hand (ps ! k))
               = replicate (length (the (word (?all ! ((0 + k + length ?all - 1) mod length ?all))))) None
           \<and> activeIndex (hand (ps ! k)) = 0
           \<and> hintsGiven (ps ! k) = 0"
    by auto
  from count consider "length ?all = 2" | "length ?all = 3"
      | "length ?all = 4" | "length ?all = 5" | "length ?all = 6"
    by linarith
  then obtain us where us: "dummyLettersForFreeHint (length ?all) = Inr us"
    by cases (simp_all add: dummyLettersForFreeHint_def)
  let ?r = "\<lparr> wordLength = wordLength room, players = ps,
                dummies = fst (startDummies us g'), bonuses = [],
                hintsRemaining = STARTING_HINTS, hintLog = [],
                activeHint = PROPOSING \<lparr> proposedHints = Map.empty \<rparr> \<rparr>"
  have r: "startGameRoom shuffle g room = Inr ?r"
    using sp us by (simp add: startGameRoom_def)
  have hands: "\<forall>i<length ?all.
           name (ps ! i) = name (?all ! i)
           \<and> mset (letters (hand (ps ! i)))
               = mset (the (word (?all ! ((i + length ?all - 1) mod length ?all))))
           \<and> guesses (hand (ps ! i))
               = replicate (length (the (word (?all ! ((i + length ?all - 1) mod length ?all))))) None
           \<and> activeIndex (hand (ps ! i)) = 0
           \<and> hintsGiven (ps ! i) = 0"
  proof (intro allI impI)
    fix i assume "i < length ?all"
    with each have e: "name (ps ! i) = name (?all ! i)
           \<and> (\<exists>g0. letters (hand (ps ! i))
                 = fst (shuffle g0 (the (word (?all ! ((i + length ?all - 1) mod length ?all))))))
           \<and> guesses (hand (ps ! i))
               = replicate (length (the (word (?all ! ((i + length ?all - 1) mod length ?all))))) None
           \<and> activeIndex (hand (ps ! i)) = 0
           \<and> hintsGiven (ps ! i) = 0"
      by simp
    then obtain g0 where "letters (hand (ps ! i))
        = fst (shuffle g0 (the (word (?all ! ((i + length ?all - 1) mod length ?all)))))"
      by blast
    then have "mset (letters (hand (ps ! i)))
        = mset (the (word (?all ! ((i + length ?all - 1) mod length ?all))))"
      using permutes by simp
    with e show "name (ps ! i) = name (?all ! i)
           \<and> mset (letters (hand (ps ! i)))
               = mset (the (word (?all ! ((i + length ?all - 1) mod length ?all))))
           \<and> guesses (hand (ps ! i))
               = replicate (length (the (word (?all ! ((i + length ?all - 1) mod length ?all))))) None
           \<and> activeIndex (hand (ps ! i)) = 0
           \<and> hintsGiven (ps ! i) = 0"
      by simp
  qed
  show ?thesis
    using r len hands by (simp add: STARTING_HINTS_def)
qed

theorem startGameRoom_deals_previous_word_witness:
  "isRoomReady (demoStart 3 [(''ann'', ''CAT''), (''bob'', ''DOG'')])
   \<and> (\<forall>g w. mset (fst (backwards g w)) = mset w)
   \<and> (\<exists>r. startGameRoom backwards id (demoStart 3 [(''ann'', ''CAT''), (''bob'', ''DOG'')]) = Inr r
         \<and> mset (letters (hand (players r ! 0))) = mset ''DOG''
         \<and> mset (letters (hand (players r ! 1))) = mset ''CAT''
         \<and> guesses (hand (players r ! 0)) = [None, None, None]
         \<and> hintsRemaining r = 11)"
proof -
  let ?room = "demoStart 3 [(''ann'', ''CAT''), (''bob'', ''DOG'')]"
  have ready: "isRoomReady ?room"
    by (simp add: isRoomReady_def MIN_PLAYERS_def MAX_PLAYERS_def demoStart_def)
  have permutes: "\<forall>g w. mset (fst (backwards g w)) = mset w"
    by (simp add: backwards_def)
  have n: "players ?room = [\<lparr> name = ''ann'', word = Some ''CAT'' \<rparr>,
                            \<lparr> name = ''bob'', word = Some ''DOG'' \<rparr>]"
    by (simp add: demoStart_def)
  from startGameRoom_deals_previous_word [OF ready permutes, of id]
  obtain r where r: "startGameRoom backwards id ?room = Inr r"
    and each: "\<forall>i<length (players ?room).
           name (players r ! i) = name (players ?room ! i)
           \<and> mset (letters (hand (players r ! i)))
               = mset (the (word (players ?room !
                   ((i + length (players ?room) - 1) mod length (players ?room)))))
           \<and> guesses (hand (players r ! i))
               = replicate (length (the (word (players ?room !
                   ((i + length (players ?room) - 1) mod length (players ?room)))))) None
           \<and> activeIndex (hand (players r ! i)) = 0
           \<and> hintsGiven (players r ! i) = 0"
    and rest: "hintsRemaining r = 11"
    by blast
  have "mset (letters (hand (players r ! 0))) = mset ''DOG''
     \<and> guesses (hand (players r ! 0)) = [None, None, None]"
    using each [rule_format, of 0] by (simp add: n)
  moreover have "mset (letters (hand (players r ! 1))) = mset ''CAT''"
    using each [rule_format, of 1] by (simp add: n)
  ultimately show ?thesis
    using ready permutes r rest by blast
qed

subsection \<open>Resolution completion\<close>

lemma upt_0_Suc_shift: "[0..<Suc n] = 0 # map Suc [0..<n]"
  by (simp add: upt_conv_Cons map_Suc_upt del: upt_Suc)

lemma upt_from_shift: "[i..<i + Suc k] = i # [Suc i..<Suc i + k]"
  by (simp add: upt_conv_Cons del: upt_Suc)

lemma resolveDummies_Cons:
  "resolveDummies used i (d # ds) remaining g =
     (if int i \<in> used then
        (\<lparr> currentLetter = LETTERS ! (g 0 mod length LETTERS),
            untilFreeHint = untilFreeHint d - 1 \<rparr>
           # fst (resolveDummies used (Suc i) ds
                   (if untilFreeHint d = 1 then remaining + 1 else remaining) (\<lambda>n. g (Suc n))),
         snd (resolveDummies used (Suc i) ds
                   (if untilFreeHint d = 1 then remaining + 1 else remaining) (\<lambda>n. g (Suc n))))
      else (d # fst (resolveDummies used (Suc i) ds remaining g),
            snd (resolveDummies used (Suc i) ds remaining g)))"
  by (simp add: randomLetter_def split: prod.splits)

lemma resolveDummies_length:
  "length (fst (resolveDummies used i ds remaining g)) = length ds"
  by (induction ds arbitrary: i remaining g)
     (simp_all add: resolveDummies_Cons del: resolveDummies.simps(2))

lemma resolveDummies_kept:
  "k < length ds \<Longrightarrow> int (i + k) \<notin> used \<Longrightarrow>
   fst (resolveDummies used i ds remaining g) ! k = ds ! k"
proof (induction ds arbitrary: i remaining g k)
  case Nil
  then show ?case by simp
next
  case (Cons d ds)
  show ?case
  proof (cases k)
    case 0
    with Cons.prems show ?thesis by (simp add: resolveDummies_Cons del: resolveDummies.simps(2))
  next
    case (Suc k')
    with Cons.prems have "k' < length ds" "int (Suc i + k') \<notin> used" by simp_all
    from Cons.IH [OF this] Suc show ?thesis
      by (simp add: resolveDummies_Cons del: resolveDummies.simps(2))
  qed
qed

lemma resolveDummies_used:
  "k < length ds \<Longrightarrow> int (i + k) \<in> used \<Longrightarrow>
   fst (resolveDummies used i ds remaining g) ! k =
     \<lparr> currentLetter =
         LETTERS ! (g (length (filter (\<lambda>j. int j \<in> used) [i..<i + k])) mod length LETTERS),
       untilFreeHint = untilFreeHint (ds ! k) - 1 \<rparr>"
proof (induction ds arbitrary: i remaining g k)
  case Nil
  then show ?case by simp
next
  case (Cons d ds)
  show ?case
  proof (cases k)
    case 0
    with Cons.prems show ?thesis
      by (simp add: resolveDummies_Cons del: resolveDummies.simps(2))
  next
    case (Suc k')
    with Cons.prems have k': "k' < length ds" "int (Suc i + k') \<in> used" by simp_all
    have range: "[i..<i + k] = i # [Suc i..<Suc i + k']"
      using Suc upt_from_shift [of i k'] by simp
    show ?thesis
    proof (cases "int i \<in> used")
      case True
      from Cons.IH [OF k', of "if untilFreeHint d = 1 then remaining + 1 else remaining" "\<lambda>n. g (Suc n)"]
      show ?thesis
        using True Suc range by (simp add: resolveDummies_Cons del: resolveDummies.simps(2))
    next
      case False
      from Cons.IH [OF k', of remaining g]
      show ?thesis
        using False Suc range by (simp add: resolveDummies_Cons del: resolveDummies.simps(2))
    qed
  qed
qed

lemma resolveDummies_remaining:
  "snd (resolveDummies used i ds remaining g) =
     remaining + int (length (filter (\<lambda>k. int (i + k) \<in> used \<and> untilFreeHint (ds ! k) = 1)
                                [0..<length ds]))"
proof (induction ds arbitrary: i remaining g)
  case Nil
  show ?case by simp
next
  case (Cons d ds)
  have split: "filter (\<lambda>k. int (i + k) \<in> used \<and> untilFreeHint ((d # ds) ! k) = 1) [0..<length (d # ds)]
     = (if int i \<in> used \<and> untilFreeHint d = 1 then [0] else [])
       @ map Suc (filter (\<lambda>k. int (Suc i + k) \<in> used \<and> untilFreeHint (ds ! k) = 1) [0..<length ds])"
    by (simp add: upt_0_Suc_shift filter_map comp_def ac_simps del: upt_Suc)
  show ?case
  proof (cases "int i \<in> used")
    case True
    from Cons [of "Suc i" "if untilFreeHint d = 1 then remaining + 1 else remaining" "\<lambda>n. g (Suc n)"]
    show ?thesis
      unfolding split using True by (simp add: resolveDummies_Cons del: resolveDummies.simps(2))
  next
    case False
    from Cons [of "Suc i" remaining g]
    show ?thesis
      unfolding split using False by (simp add: resolveDummies_Cons del: resolveDummies.simps(2))
  qed
qed

lemma fold_dummiesUsed:
  "x \<in> fold (\<lambda>letterAndSource used.
               case letterAndSource of
                 DUMMY _ dummyNumber \<Rightarrow> insert (int dummyNumber - 1) used
               | _ \<Rightarrow> used) ls S
   \<longleftrightarrow> x \<in> S \<or> (\<exists>letter n. DUMMY letter n \<in> set ls \<and> x = int n - 1)"
  by (induction ls arbitrary: S) (auto split: LetterAndSource.splits)

lemma dummiesUsed_iff:
  "x \<in> dummiesUsed h \<longleftrightarrow> (\<exists>letter n. DUMMY letter n \<in> set (lettersAndSources h) \<and> x = int n - 1)"
  by (simp add: dummiesUsed_def fold_dummiesUsed)

lemma dummiesUsed_index:
  "int k \<in> dummiesUsed h \<longleftrightarrow> (\<exists>letter. DUMMY letter (Suc k) \<in> set (lettersAndSources h))"
proof -
  have "int k = int n - 1 \<longleftrightarrow> n = Suc k" for n
    by auto
  then show ?thesis
    unfolding dummiesUsed_iff by metis
qed

lemma fold_bonusesUsed:
  "x \<in> fold (\<lambda>letterAndSource used.
               case letterAndSource of
                 BONUS letter \<Rightarrow> insert (findIndex (\<lambda>bonus. bonus = letter) pool) used
               | _ \<Rightarrow> used) ls S
   \<longleftrightarrow> x \<in> S \<or> (\<exists>letter. BONUS letter \<in> set ls \<and> x = findIndex (\<lambda>bonus. bonus = letter) pool)"
  by (induction ls arbitrary: S) (auto split: LetterAndSource.splits)

lemma bonusesUsed_iff:
  "x \<in> bonusesUsed pool h \<longleftrightarrow>
     (\<exists>letter. BONUS letter \<in> set (lettersAndSources h) \<and> x = findIndex (\<lambda>bonus. bonus = letter) pool)"
  by (simp add: bonusesUsed_def fold_bonusesUsed)

lemma fold_add_players:
  "fold (\<lambda>letterAndSource playerNumbers.
                case letterAndSource of
                  PLAYER _ playerNumber \<Rightarrow> insert playerNumber playerNumbers
                | _ \<Rightarrow> playerNumbers) ls S
   = S \<union> {n. \<exists>letter. PLAYER letter n \<in> set ls}"
  by (induction ls arbitrary: S) (auto split: LetterAndSource.splits)

lemma fold_delete_players:
  "fold (\<lambda>action playerNumbers. playerNumbers - {player action}) as S = S - player ` set as"
  by (induction as arbitrary: S) auto

lemma playersWithOutstandingAction_eq:
  "playersWithOutstandingAction ah =
     {n. \<exists>letter. PLAYER letter n \<in> set (lettersAndSources (hint ah))} - player ` set (playerActions ah)"
  by (simp add: playersWithOutstandingAction_def fold_add_players fold_delete_players)

text \<open>
  C5 as stated fails when the hint consumes more than one dummy whose countdown is 1:
  each of them grants a hint, so \<open>hintsRemaining\<close> goes up by one (from 5 to 6 here)
  instead of staying as it was.
\<close>

theorem fullyResolveHint_free_hints_counterexample:
  "map untilFreeHint (dummies (demoResolving
       \<lparr> givenByPlayer = 1, lettersAndSources = [DUMMY (CHR ''S'') 1, DUMMY (CHR ''T'') 2] \<rparr>)) = [1, 1]
   \<and> hintsRemaining (demoResolving
       \<lparr> givenByPlayer = 1, lettersAndSources = [DUMMY (CHR ''S'') 1, DUMMY (CHR ''T'') 2] \<rparr>) = 5
   \<and> hintsRemaining (fullyResolveHint id (demoResolving
       \<lparr> givenByPlayer = 1, lettersAndSources = [DUMMY (CHR ''S'') 1, DUMMY (CHR ''T'') 2] \<rparr>)) = 6"
  by (simp add: demoResolving_def demoRoom_def withActiveHint_def fullyResolveHint_def
      dummiesUsed_def randomLetter_def Let_def)

text \<open>
  C5, amended. In \<open>fullyResolveHint\<close> the dummy at 0-based index \<open>k\<close> is consumed when the
  hint has a letter from dummy number \<open>k + 1\<close> (\<open>dummiesUsed\<close>). A consumed dummy takes
  the next letter drawn from the random source (a letter of \<open>LETTERS\<close>: the draw numbered
  by the consumed dummies before it) and its \<open>untilFreeHint\<close> goes down by 1; every other
  dummy is unchanged. \<open>hintsRemaining\<close> changes by -1 plus the number of consumed dummies
  whose \<open>untilFreeHint\<close> was 1: the net change is 0 when there is exactly one of them.
\<close>

theorem fullyResolveHint_dummies:
  "length (dummies (fullyResolveHint g room)) = length (dummies room)
   \<and> (\<forall>k<length (dummies room).
         (int k \<in> dummiesUsed (hint (activeHint room)))
           = (\<exists>letter. DUMMY letter (Suc k) \<in> set (lettersAndSources (hint (activeHint room))))
         \<and> dummies (fullyResolveHint g room) ! k =
             (if int k \<in> dummiesUsed (hint (activeHint room))
              then \<lparr> currentLetter = LETTERS !
                       (g (length (filter (\<lambda>j. int j \<in> dummiesUsed (hint (activeHint room))) [0..<k]))
                          mod length LETTERS),
                     untilFreeHint = untilFreeHint (dummies room ! k) - 1 \<rparr>
              else dummies room ! k))
   \<and> hintsRemaining (fullyResolveHint g room) =
       hintsRemaining room - 1
       + int (length (filter (\<lambda>k. int k \<in> dummiesUsed (hint (activeHint room))
                                   \<and> untilFreeHint (dummies room ! k) = 1)
                        [0..<length (dummies room)]))"
proof -
  let ?used = "dummiesUsed (hint (activeHint room))"
  let ?res = "resolveDummies ?used 0 (dummies room) (hintsRemaining room - 1) g"
  have d: "dummies (fullyResolveHint g room) = fst ?res"
    and h: "hintsRemaining (fullyResolveHint g room) = snd ?res"
    by (simp_all add: fullyResolveHint_def Let_def)
  have len: "length (dummies (fullyResolveHint g room)) = length (dummies room)"
    by (simp add: d resolveDummies_length)
  have each: "dummies (fullyResolveHint g room) ! k =
             (if int k \<in> ?used
              then \<lparr> currentLetter = LETTERS !
                       (g (length (filter (\<lambda>j. int j \<in> ?used) [0..<k])) mod length LETTERS),
                     untilFreeHint = untilFreeHint (dummies room ! k) - 1 \<rparr>
              else dummies room ! k)" if "k < length (dummies room)" for k
    using that resolveDummies_used [of k "dummies room" 0 ?used "hintsRemaining room - 1" g]
      resolveDummies_kept [of k "dummies room" 0 ?used "hintsRemaining room - 1" g]
    by (simp add: d)
  have rem: "hintsRemaining (fullyResolveHint g room) =
       hintsRemaining room - 1
       + int (length (filter (\<lambda>k. int k \<in> ?used \<and> untilFreeHint (dummies room ! k) = 1)
                        [0..<length (dummies room)]))"
    using resolveDummies_remaining [of ?used 0 "dummies room" "hintsRemaining room - 1" g]
    by (simp add: h)
  show ?thesis
    using len each rem by (simp add: dummiesUsed_index)
qed

theorem fullyResolveHint_dummies_witness:
  "dummies (demoResolving \<lparr> givenByPlayer = 1, lettersAndSources = [DUMMY (CHR ''T'') 2] \<rparr>)
     = [\<lparr> currentLetter = CHR ''S'', untilFreeHint = 1 \<rparr>,
        \<lparr> currentLetter = CHR ''T'', untilFreeHint = 1 \<rparr>]
   \<and> dummies (fullyResolveHint id
        (demoResolving \<lparr> givenByPlayer = 1, lettersAndSources = [DUMMY (CHR ''T'') 2] \<rparr>))
     = [\<lparr> currentLetter = CHR ''S'', untilFreeHint = 1 \<rparr>,
        \<lparr> currentLetter = CHR ''A'', untilFreeHint = 0 \<rparr>]
   \<and> hintsRemaining (fullyResolveHint id
        (demoResolving \<lparr> givenByPlayer = 1, lettersAndSources = [DUMMY (CHR ''T'') 2] \<rparr>))
     = hintsRemaining (demoResolving \<lparr> givenByPlayer = 1, lettersAndSources = [DUMMY (CHR ''T'') 2] \<rparr>)"
proof -
  define room where
    "room = demoResolving \<lparr> givenByPlayer = 1, lettersAndSources = [DUMMY (CHR ''T'') 2] \<rparr>"
  have ds: "dummies room = [\<lparr> currentLetter = CHR ''S'', untilFreeHint = 1 \<rparr>,
        \<lparr> currentLetter = CHR ''T'', untilFreeHint = 1 \<rparr>]"
    by (simp add: room_def demoResolving_def demoRoom_def withActiveHint_def)
  have used: "dummiesUsed (hint (activeHint room)) = {1}"
    by (simp add: room_def demoResolving_def withActiveHint_def dummiesUsed_def)
  have letters: "LETTERS ! (id 0 mod length LETTERS) = CHR ''A''"
    by (simp add: LETTERS_def)
  note t = fullyResolveHint_dummies [of id room]
  from t have len: "length (dummies (fullyResolveHint id room)) = 2"
    by (simp add: ds)
  from t have each: "dummies (fullyResolveHint id room) ! k =
             (if int k \<in> dummiesUsed (hint (activeHint room))
              then \<lparr> currentLetter = LETTERS !
                       (id (length (filter (\<lambda>j. int j \<in> dummiesUsed (hint (activeHint room))) [0..<k]))
                          mod length LETTERS),
                     untilFreeHint = untilFreeHint (dummies room ! k) - 1 \<rparr>
              else dummies room ! k)" if "k < length (dummies room)" for k
    using that by blast
  have d0: "dummies (fullyResolveHint id room) ! 0 = \<lparr> currentLetter = CHR ''S'', untilFreeHint = 1 \<rparr>"
    using each [of 0] by (simp add: ds used)
  have d1: "dummies (fullyResolveHint id room) ! 1 = \<lparr> currentLetter = CHR ''A'', untilFreeHint = 0 \<rparr>"
    using each [of 1] letters by (simp add: ds used)
  from t have rem: "hintsRemaining (fullyResolveHint id room) = hintsRemaining room"
    by (simp add: ds used)
  have "dummies (fullyResolveHint id room)
     = [\<lparr> currentLetter = CHR ''S'', untilFreeHint = 1 \<rparr>,
        \<lparr> currentLetter = CHR ''A'', untilFreeHint = 0 \<rparr>]"
    using len d0 d1 by (auto simp: list_eq_iff_nth_eq less_Suc_eq numeral_2_eq_2)
  with ds rem show ?thesis
    unfolding room_def by simp
qed

subsection \<open>Hints that involve no player\<close>

lemma mapNth_in_range:
  "1 \<le> n \<Longrightarrow> n \<le> length xs \<Longrightarrow> mapNth xs (int n - 1) f = xs[n - 1 := f (xs ! (n - 1))]"
  by (auto simp: mapNth_def nat_diff_distrib')

lemma checkSources_legal:
  assumes bonus: "\<forall>letter. BONUS letter \<in> set ls \<longrightarrow> letter \<in> set (bonuses room)"
    and dummy: "\<forall>letter n. DUMMY letter n \<in> set ls
        \<longrightarrow> 1 \<le> n \<and> n \<le> length (dummies room) \<and> currentLetter (dummies room ! (n - 1)) = letter"
    and noPlayer: "\<forall>letter n. PLAYER letter n \<notin> set ls"
  shows "checkSources room ls = None"
proof -
  have "checkSource room l = None" if "l \<in> set ls" for l
  proof (cases l)
    case (PLAYER letter n)
    with that noPlayer show ?thesis by blast
  next
    case WILDCARD
    then show ?thesis by simp
  next
    case (DUMMY letter n)
    with that dummy have "1 \<le> n" "n \<le> length (dummies room)"
      "currentLetter (dummies room ! (n - 1)) = letter"
      by blast+
    with DUMMY checkSource_DUMMY_iff [of n room letter] show ?thesis by simp
  next
    case (BONUS letter)
    with that bonus show ?thesis by auto
  qed
  then show ?thesis
    by (simp add: checkSources_None_iff)
qed

lemma giveHint_no_players:
  assumes "checkSources room (lettersAndSources h) = None"
    and "\<forall>letter n. PLAYER letter n \<notin> set (lettersAndSources h)"
  shows "giveHint g room h =
     Inr (proposingPhase (fullyResolveHint g
       (withActiveHint
          (room\<lparr> players := mapNth (players room) (int (givenByPlayer h) - 1)
                     (\<lambda>p. p\<lparr> hintsGiven := hintsGiven p + 1 \<rparr>) \<rparr>)
          \<lparr> hint = h, playerActions = [],
            activeIndexes = map (\<lambda>p. activeIndex (hand p)) (players room) \<rparr>)))"
proof -
  have "playersWithOutstandingAction
          \<lparr> hint = h, playerActions = [],
            activeIndexes = map (\<lambda>p. activeIndex (hand p)) (players room) \<rparr> = {}"
    using assms(2) by (simp add: playersWithOutstandingAction_eq)
  then show ?thesis
    using assms(1) by (simp add: giveHint_def Let_def withActiveHint_def)
qed



subsection \<open>Bonus letters used by a hint\<close>

lemma findIndex_first:
  "i < length xs \<Longrightarrow>
   findIndex (\<lambda>b. b = L) xs = int i \<longleftrightarrow> xs ! i = L \<and> L \<notin> set (take i xs)"
proof (induction xs arbitrary: i)
  case Nil
  then show ?case by simp
next
  case (Cons x xs)
  show ?case
  proof (cases i)
    case 0
    then show ?thesis by (auto simp: Let_def)
  next
    case (Suc j)
    with Cons.prems have j: "j < length xs" by simp
    show ?thesis
    proof (cases "x = L")
      case True
      with Suc show ?thesis by simp
    next
      case False
      have "findIndex (\<lambda>b. b = L) (x # xs) = int (Suc j)
          \<longleftrightarrow> findIndex (\<lambda>b. b = L) xs = int j"
        using False by (auto simp: Let_def)
      with Cons.IH [OF j] False Suc show ?thesis by auto
    qed
  qed
qed

lemma kept_bonuses_snoc:
  "map snd (filter (\<lambda>(i, b). \<not> (C b \<and> b \<notin> set (take i (bs @ [x])))) (enumerate 0 (bs @ [x])))
   = map snd (filter (\<lambda>(i, b). \<not> (C b \<and> b \<notin> set (take i bs))) (enumerate 0 bs))
     @ (if C x \<and> x \<notin> set bs then [] else [x])"
proof -
  have "filter (\<lambda>(i, b). \<not> (C b \<and> b \<notin> set (take i (bs @ [x])))) (enumerate 0 bs)
      = filter (\<lambda>(i, b). \<not> (C b \<and> b \<notin> set (take i bs))) (enumerate 0 bs)"
    by (rule filter_cong) (auto simp: in_set_enumerate_eq)
  then show ?thesis
    by (simp add: enumerate_append_eq)
qed

lemma kept_bonuses_count:
  "count_list (map snd (filter (\<lambda>(i, b). \<not> (C b \<and> b \<notin> set (take i bs))) (enumerate 0 bs))) L
   = count_list bs L - (if C L \<and> L \<in> set bs then 1 else 0)"
proof (induction bs rule: rev_induct)
  case Nil
  show ?case by simp
next
  case (snoc x bs)
  have pos: "0 < count_list bs L" if "L \<in> set bs"
    using that count_list_0_iff [of bs L] by auto
  show ?case
    unfolding kept_bonuses_snoc using snoc pos by (auto simp: count_list_0_iff)
qed

lemma fullyResolveHint_bonuses:
  "bonuses (fullyResolveHint g room)
   = map snd (filter (\<lambda>(i, b). \<not> (BONUS b \<in> set (lettersAndSources (hint (activeHint room)))
                                    \<and> b \<notin> set (take i (bonuses room))))
               (enumerate 0 (bonuses room)))"
proof -
  have "filter (\<lambda>(index, bonus). int index \<notin> bonusesUsed (bonuses room) (hint (activeHint room)))
          (enumerate 0 (bonuses room))
      = filter (\<lambda>(i, b). \<not> (BONUS b \<in> set (lettersAndSources (hint (activeHint room)))
                                    \<and> b \<notin> set (take i (bonuses room))))
          (enumerate 0 (bonuses room))"
  proof (rule filter_cong [OF refl])
    fix p assume "p \<in> set (enumerate 0 (bonuses room))"
    then have "fst p < length (bonuses room)" "bonuses room ! fst p = snd p"
      unfolding in_set_enumerate_eq by simp_all
    then obtain i where p: "p = (i, bonuses room ! i)" and i: "i < length (bonuses room)"
      by (metis prod.collapse)
    have "int i \<in> bonusesUsed (bonuses room) (hint (activeHint room))
        \<longleftrightarrow> (\<exists>letter. BONUS letter \<in> set (lettersAndSources (hint (activeHint room)))
               \<and> bonuses room ! i = letter \<and> letter \<notin> set (take i (bonuses room)))"
      unfolding bonusesUsed_iff using findIndex_first [OF i] by metis
    then show "(case p of (index, bonus) \<Rightarrow>
                  int index \<notin> bonusesUsed (bonuses room) (hint (activeHint room)))
        = (case p of (i, b) \<Rightarrow> \<not> (BONUS b \<in> set (lettersAndSources (hint (activeHint room)))
                                    \<and> b \<notin> set (take i (bonuses room))))"
      using p by auto
  qed
  then show ?thesis
    by (simp add: fullyResolveHint_def Let_def)
qed

lemma fullyResolveHint_bonus_count:
  "count_list (bonuses (fullyResolveHint g room)) L
   = count_list (bonuses room) L
     - (if BONUS L \<in> set (lettersAndSources (hint (activeHint room))) \<and> L \<in> set (bonuses room)
        then 1 else 0)"
  unfolding fullyResolveHint_bonuses
  by (rule kept_bonuses_count [of "\<lambda>b. BONUS b \<in> set (lettersAndSources (hint (activeHint room)))"])

lemma giveHint_only_bonus:
  assumes present: "L \<in> set (bonuses room)"
    and only: "set (lettersAndSources h) = {BONUS L}"
  shows "giveHint g room h = Inr (proposingPhase (fullyResolveHint g (withActiveHint
          (room\<lparr> players := mapNth (players room) (int (givenByPlayer h) - 1)
                     (\<lambda>p. p\<lparr> hintsGiven := hintsGiven p + 1 \<rparr>) \<rparr>)
          \<lparr> hint = h, playerActions = [],
            activeIndexes = map (\<lambda>p. activeIndex (hand p)) (players room) \<rparr>)))"
proof -
  have cited: "l \<in> set (lettersAndSources h) \<longleftrightarrow> l = BONUS L" for l
    unfolding only by simp
  have legal: "checkSources room (lettersAndSources h) = None"
  proof (rule checkSources_legal)
    show "\<forall>letter. BONUS letter \<in> set (lettersAndSources h) \<longrightarrow> letter \<in> set (bonuses room)"
      using present by (simp add: cited)
    show "\<forall>letter n. DUMMY letter n \<in> set (lettersAndSources h)
        \<longrightarrow> 1 \<le> n \<and> n \<le> length (dummies room) \<and> currentLetter (dummies room ! (n - 1)) = letter"
      by (simp add: cited)
    show "\<forall>letter n. PLAYER letter n \<notin> set (lettersAndSources h)"
      by (simp add: cited)
  qed
  have noPlayer: "\<forall>letter n. PLAYER letter n \<notin> set (lettersAndSources h)"
    by (simp add: cited)
  show ?thesis
    using giveHint_no_players [OF legal noPlayer] .
qed

text \<open>
  C9. Resolution completion removes at most one copy of a bonus letter, however often the
  hint cites it: the number of copies of a letter \<open>M\<close> in the pool goes down by one when
  the hint cites \<open>BONUS M\<close> and the pool holds \<open>M\<close>, and stays as it is otherwise. And
  the sanity check of \<open>giveHint\<close> asks only for one copy: a hint (given by a player of
  the room) whose letters are all \<open>BONUS L\<close>, cited any number of times, is accepted
  whenever \<open>L\<close> is in the pool; \<open>bonusesUsed\<close> is then the single index of the first
  \<open>L\<close>, and one copy of \<open>L\<close> and nothing else leaves the pool.
\<close>

theorem duplicate_bonus_citation:
  assumes present: "L \<in> set (bonuses room)"
    and only: "set (lettersAndSources h) = {BONUS L}"
    and giver: "1 \<le> givenByPlayer h \<and> givenByPlayer h \<le> length (players room)"
  shows "count_list (bonuses (fullyResolveHint g' resolving)) M
       = count_list (bonuses resolving) M
         - (if BONUS M \<in> set (lettersAndSources (hint (activeHint resolving)))
               \<and> M \<in> set (bonuses resolving)
            then 1 else 0)
     \<and> (\<exists>r. giveHint g room h = Inr r
           \<and> bonusesUsed (bonuses room) h = {findIndex (\<lambda>bonus. bonus = L) (bonuses room)}
           \<and> count_list (bonuses r) L = count_list (bonuses room) L - 1
           \<and> (\<forall>K. K \<noteq> L \<longrightarrow> count_list (bonuses r) K = count_list (bonuses room) K))"
proof -
  let ?resolving = "withActiveHint
          (room\<lparr> players := mapNth (players room) (int (givenByPlayer h) - 1)
                     (\<lambda>p. p\<lparr> hintsGiven := hintsGiven p + 1 \<rparr>) \<rparr>)
          \<lparr> hint = h, playerActions = [],
            activeIndexes = map (\<lambda>p. activeIndex (hand p)) (players room) \<rparr>"
  have general: "count_list (bonuses (fullyResolveHint g' resolving)) M
       = count_list (bonuses resolving) M
         - (if BONUS M \<in> set (lettersAndSources (hint (activeHint resolving)))
               \<and> M \<in> set (bonuses resolving)
            then 1 else 0)"
    by (rule fullyResolveHint_bonus_count)
  have res: "giveHint g room h = Inr (proposingPhase (fullyResolveHint g ?resolving))"
    using present only by (rule giveHint_only_bonus)
  have b: "bonuses (proposingPhase (fullyResolveHint g ?resolving))
      = bonuses (fullyResolveHint g ?resolving)"
    by (simp add: proposingPhase_def withActiveHint_def)
  have pool: "bonuses ?resolving = bonuses room"
    by (simp add: withActiveHint_def)
  have cited: "BONUS K \<in> set (lettersAndSources (hint (activeHint ?resolving))) \<longleftrightarrow> K = L" for K
    by (simp add: withActiveHint_def only)
  have "count_list (bonuses (fullyResolveHint g ?resolving)) K
      = count_list (bonuses ?resolving) K
          - (if BONUS K \<in> set (lettersAndSources (hint (activeHint ?resolving)))
               \<and> K \<in> set (bonuses ?resolving) then 1 else 0)" for K
    by (rule fullyResolveHint_bonus_count)
  then have count: "count_list (bonuses (proposingPhase (fullyResolveHint g ?resolving))) K
      = count_list (bonuses room) K - (if K = L then 1 else 0)" for K
    using present by (simp only: b pool cited) simp
  have used: "bonusesUsed (bonuses room) h = {findIndex (\<lambda>bonus. bonus = L) (bonuses room)}"
  proof -
    have "x \<in> bonusesUsed (bonuses room) h \<longleftrightarrow> x = findIndex (\<lambda>bonus. bonus = L) (bonuses room)" for x
      unfolding bonusesUsed_iff only by simp
    then show ?thesis by blast
  qed
  have "count_list (bonuses (proposingPhase (fullyResolveHint g ?resolving))) L
      = count_list (bonuses room) L - 1"
    using count [of L] by simp
  moreover have "\<forall>K. K \<noteq> L \<longrightarrow> count_list (bonuses (proposingPhase (fullyResolveHint g ?resolving))) K
      = count_list (bonuses room) K"
    using count by simp
  ultimately show ?thesis
    using general res used by blast
qed

theorem duplicate_bonus_citation_witness:
  "bonuses demoRoom = ''E''
   \<and> (\<exists>r. giveHint id demoRoom
            \<lparr> givenByPlayer = 2, lettersAndSources = [BONUS (CHR ''E''), BONUS (CHR ''E'')] \<rparr> = Inr r
         \<and> count_list (bonuses r) (CHR ''E'') = 0)"
proof -
  define h where
    "h = \<lparr> givenByPlayer = 2, lettersAndSources = [BONUS (CHR ''E''), BONUS (CHR ''E'')] \<rparr>"
  have pool: "bonuses demoRoom = ''E''"
    by (simp add: demoRoom_def)
  have present: "CHR ''E'' \<in> set (bonuses demoRoom)"
    by (simp add: pool)
  have only: "set (lettersAndSources h) = {BONUS (CHR ''E'')}"
    by (simp add: h_def)
  have giver: "1 \<le> givenByPlayer h \<and> givenByPlayer h \<le> length (players demoRoom)"
    by (simp add: h_def demoRoom_def)
  from duplicate_bonus_citation [OF present only giver, of id]
  obtain r where "giveHint id demoRoom h = Inr r"
    and "count_list (bonuses r) (CHR ''E'') = count_list (bonuses demoRoom) (CHR ''E'') - 1"
    by blast
  then show ?thesis
    unfolding h_def by (auto simp: pool)
qed

subsection \<open>Resolve actions\<close>

lemma at_index_player:
  "1 \<le> n \<Longrightarrow> n \<le> length xs \<Longrightarrow> at_index xs (int n - 1) = Some (xs ! (n - 1))"
  by (auto simp: at_index_def nat_diff_distrib')

lemma nat_player_index: "1 \<le> n \<Longrightarrow> nat (int n - 1) = n - 1"
  by (simp add: nat_diff_distrib')

lemma applyResolution_frame:
  assumes "1 \<le> player a \<and> player a \<le> length (players room)"
  shows "\<exists>r g'. applyResolution g (room\<lparr> activeHint := ah \<rparr>) a = Inr (r, g')
     \<and> activeHint r = ah
     \<and> dummies r = dummies room
     \<and> hintsRemaining r = hintsRemaining room
     \<and> hintLog r = hintLog room
     \<and> wordLength r = wordLength room
     \<and> length (players r) = length (players room)
     \<and> players r =
         (case kind a of
            NONE \<Rightarrow> players room
          | FLIP \<Rightarrow> (players room)[player a - 1 :=
              (players room ! (player a - 1))
                \<lparr> hand := \<lparr> letters =
                     (if int (activeIndex (hand (players room ! (player a - 1)))) = int (wordLength room) - 1
                      then letters (hand (players room ! (player a - 1)))
                             @ [LETTERS ! (g 0 mod length LETTERS)]
                      else letters (hand (players room ! (player a - 1)))),
                   guesses = guesses (hand (players room ! (player a - 1))),
                   activeIndex = activeIndex (hand (players room ! (player a - 1))) + 1 \<rparr> \<rparr>]
          | GUESS guessed actual \<Rightarrow> (players room)[player a - 1 :=
              (players room ! (player a - 1))
                \<lparr> hand := \<lparr> letters =
                     take (wordLength room) (letters (hand (players room ! (player a - 1))))
                       @ [LETTERS ! (g 0 mod length LETTERS)],
                   guesses = guesses (hand (players room ! (player a - 1))),
                   activeIndex = activeIndex (hand (players room ! (player a - 1))) \<rparr> \<rparr>])
     \<and> bonuses r =
         (case kind a of
            GUESS guessed actual \<Rightarrow> if guessed = actual then bonuses room @ [guessed] else bonuses room
          | _ \<Rightarrow> bonuses room)"
proof -
  have at: "at_index (players room) (int (player a) - 1) = Some (players room ! (player a - 1))"
    using assms by (simp add: at_index_player)
  have ix: "nat (int (player a) - 1) = player a - 1"
    using assms by (simp add: nat_player_index)
  show ?thesis
  proof (cases "kind a")
    case NONE
    then show ?thesis by (simp add: applyResolution_def)
  next
    case FLIP
    then show ?thesis
      by (simp add: applyResolution_def at ix randomLetter_def)
  next
    case (GUESS guessed actual)
    then show ?thesis
      by (simp add: applyResolution_def at ix randomLetter_def)
  qed
qed

lemma performResolveAction_unfold:
  assumes "applyResolution g
             (room\<lparr> activeHint := (activeHint room)
                      \<lparr> playerActions := playerActions (activeHint room) @ [a] \<rparr> \<rparr>) a = Inr (r, g')"
  shows "performResolveAction g room a =
     (if playersWithOutstandingAction (activeHint r) = {}
      then Inr (proposingPhase (fullyResolveHint g' r))
      else Inr (resolvingPhase r))"
  using assms by (simp add: performResolveAction_def)

lemma proposingPhase_fields:
  "wordLength (proposingPhase r) = wordLength r"
  "players (proposingPhase r) = players r"
  "dummies (proposingPhase r) = dummies r"
  "bonuses (proposingPhase r) = bonuses r"
  "hintsRemaining (proposingPhase r) = hintsRemaining r"
  "hintLog (proposingPhase r) = hintLog r"
  "activeHint (proposingPhase r) = PROPOSING (activeHint r)"
  by (simp_all add: proposingPhase_def withActiveHint_def)

lemma resolvingPhase_fields:
  "wordLength (resolvingPhase r) = wordLength r"
  "players (resolvingPhase r) = players r"
  "dummies (resolvingPhase r) = dummies r"
  "bonuses (resolvingPhase r) = bonuses r"
  "hintsRemaining (resolvingPhase r) = hintsRemaining r"
  "hintLog (resolvingPhase r) = hintLog r"
  "activeHint (resolvingPhase r) = RESOLVING (activeHint r)"
  by (simp_all add: resolvingPhase_def withActiveHint_def)

lemma fullyResolveHint_frame:
  "wordLength (fullyResolveHint g r) = wordLength r"
  "players (fullyResolveHint g r) = players r"
  "activeHint (fullyResolveHint g r) = \<lparr> proposedHints = Map.empty \<rparr>"
  "hintLog (fullyResolveHint g r) = hintLog r @
      [\<lparr> hint = hint (activeHint r), playerActions = playerActions (activeHint r),
         activeIndexes = activeIndexes (activeHint r),
         totalHints = int (length (hintLog r)) + hintsRemaining r \<rparr>]"
  by (simp_all add: fullyResolveHint_def Let_def)

lemma fullyResolveHint_remaining:
  "hintsRemaining (fullyResolveHint g r) = hintsRemaining r - 1
     + int (length (filter (\<lambda>k. int k \<in> dummiesUsed (hint (activeHint r))
                                 \<and> untilFreeHint (dummies r ! k) = 1)
                      [0..<length (dummies r)]))"
  using resolveDummies_remaining [of "dummiesUsed (hint (activeHint r))" 0 "dummies r"
      "hintsRemaining r - 1" g]
  by (simp add: fullyResolveHint_def Let_def)

lemma resolve_pair:
  assumes refs: "{n. \<exists>letter. PLAYER letter n \<in> set (lettersAndSources (hint (activeHint room)))}
        = {player a, player b}"
    and distinct: "player a \<noteq> player b"
    and fresh: "player b \<notin> player ` set (playerActions (activeHint room))"
    and ra: "1 \<le> player a \<and> player a \<le> length (players room)"
    and rb: "1 \<le> player b \<and> player b \<le> length (players room)"
    and nofree: "\<forall>k<length (dummies room). int k \<in> dummiesUsed (hint (activeHint room))
        \<longrightarrow> untilFreeHint (dummies room ! k) \<noteq> 1"
  shows "\<exists>r1. performResolveAction g1 room a = Inr (resolvingPhase r1)
     \<and> (\<exists>r2. performResolveAction g2 r1 b = Inr r2
           \<and> activeHint r2 = PROPOSING \<lparr> proposedHints = Map.empty \<rparr>
           \<and> hintsRemaining r2 = hintsRemaining room - 1)"
proof -
  let ?ah1 = "(activeHint room)\<lparr> playerActions := playerActions (activeHint room) @ [a] \<rparr>"
  from applyResolution_frame [OF ra, where g = g1 and ah = ?ah1]
  obtain r1 g1' where ap1: "applyResolution g1 (room\<lparr> activeHint := ?ah1 \<rparr>) a = Inr (r1, g1')"
    and ah1: "activeHint r1 = ?ah1"
    and ds1: "dummies r1 = dummies room"
    and hr1: "hintsRemaining r1 = hintsRemaining room"
    and len1: "length (players r1) = length (players room)"
    by blast
  have "player b \<in> playersWithOutstandingAction (activeHint r1)"
    unfolding ah1 playersWithOutstandingAction_eq using refs distinct fresh by auto
  then have step1: "performResolveAction g1 room a = Inr (resolvingPhase r1)"
    using performResolveAction_unfold [OF ap1] by auto
  let ?ah2 = "(activeHint r1)\<lparr> playerActions := playerActions (activeHint r1) @ [b] \<rparr>"
  have rb1: "1 \<le> player b \<and> player b \<le> length (players r1)"
    using rb len1 by simp
  from applyResolution_frame [OF rb1, where g = g2 and ah = ?ah2]
  obtain r2 g2' where ap2: "applyResolution g2 (r1\<lparr> activeHint := ?ah2 \<rparr>) b = Inr (r2, g2')"
    and ah2: "activeHint r2 = ?ah2"
    and ds2: "dummies r2 = dummies r1"
    and hr2: "hintsRemaining r2 = hintsRemaining r1"
    by blast
  have "playersWithOutstandingAction (activeHint r2) = {}"
    unfolding ah2 ah1 playersWithOutstandingAction_eq using refs by auto
  then have step2: "performResolveAction g2 r1 b = Inr (proposingPhase (fullyResolveHint g2' r2))"
    using performResolveAction_unfold [OF ap2] by simp
  have h2: "hint (activeHint r2) = hint (activeHint room)"
    by (simp add: ah2 ah1)
  have "filter (\<lambda>k. int k \<in> dummiesUsed (hint (activeHint room))
                                 \<and> untilFreeHint (dummies room ! k) = 1)
                      [0..<length (dummies room)] = []"
    using nofree by (auto simp: filter_empty_conv)
  then have "hintsRemaining (fullyResolveHint g2' r2) = hintsRemaining room - 1"
    by (simp add: fullyResolveHint_remaining h2 ds2 ds1 hr2 hr1)
  then have "hintsRemaining (proposingPhase (fullyResolveHint g2' r2)) = hintsRemaining room - 1"
    by (simp add: proposingPhase_fields)
  moreover have "activeHint (proposingPhase (fullyResolveHint g2' r2))
      = PROPOSING \<lparr> proposedHints = Map.empty \<rparr>"
    by (simp add: proposingPhase_fields fullyResolveHint_frame)
  ultimately show ?thesis
    using step1 step2 by blast
qed

text \<open>
  C2. Take a resolving room whose hint has player-sourced letters of exactly the players 1
  and 2, both of them players of the room, neither of whom has acted yet, and an action
  \<open>a1\<close> of player 1 and \<open>a2\<close> of player 2 (of any kind, with any random source). After
  the first action alone the room is still Resolving; after the second one it is
  Proposing with no proposed hints, and \<open>hintsRemaining\<close> is one less than before,
  provided no dummy consumed by the hint had \<open>untilFreeHint = 1\<close>. The same holds with
  player 2 acting first: only who has responded counts, not the order.
\<close>

theorem resolve_completes_after_both:
  assumes refs: "{n. \<exists>letter. PLAYER letter n \<in> set (lettersAndSources (hint (activeHint room)))}
        = {1, 2}"
    and fresh: "1 \<notin> player ` set (playerActions (activeHint room))"
               "2 \<notin> player ` set (playerActions (activeHint room))"
    and exist: "2 \<le> length (players room)"
    and who: "player a1 = 1" "player a2 = 2"
    and nofree: "\<forall>k<length (dummies room). int k \<in> dummiesUsed (hint (activeHint room))
        \<longrightarrow> untilFreeHint (dummies room ! k) \<noteq> 1"
  shows "(\<exists>r1. performResolveAction g1 room a1 = Inr (resolvingPhase r1)
           \<and> (\<exists>r2. performResolveAction g2 r1 a2 = Inr r2
                 \<and> activeHint r2 = PROPOSING \<lparr> proposedHints = Map.empty \<rparr>
                 \<and> hintsRemaining r2 = hintsRemaining room - 1))
     \<and> (\<exists>r1. performResolveAction g1 room a2 = Inr (resolvingPhase r1)
           \<and> (\<exists>r2. performResolveAction g2 r1 a1 = Inr r2
                 \<and> activeHint r2 = PROPOSING \<lparr> proposedHints = Map.empty \<rparr>
                 \<and> hintsRemaining r2 = hintsRemaining room - 1))"
proof -
  have r12: "{n. \<exists>letter. PLAYER letter n \<in> set (lettersAndSources (hint (activeHint room)))}
        = {player a1, player a2}"
    using refs who by simp
  have r21: "{n. \<exists>letter. PLAYER letter n \<in> set (lettersAndSources (hint (activeHint room)))}
        = {player a2, player a1}"
    using refs who by auto
  have d12: "player a1 \<noteq> player a2" and d21: "player a2 \<noteq> player a1"
    using who by simp_all
  have f1: "player a1 \<notin> player ` set (playerActions (activeHint room))"
    and f2: "player a2 \<notin> player ` set (playerActions (activeHint room))"
    using fresh who by simp_all
  have in1: "1 \<le> player a1 \<and> player a1 \<le> length (players room)"
    and in2: "1 \<le> player a2 \<and> player a2 \<le> length (players room)"
    using exist who by simp_all
  show ?thesis
    using resolve_pair [OF r12 d12 f2 in1 in2 nofree, of g1 g2]
      resolve_pair [OF r21 d21 f1 in2 in1 nofree, of g1 g2]
    by blast
qed

theorem resolve_completes_after_both_witness:
  "hintsRemaining (demoResolving
      \<lparr> givenByPlayer = 1, lettersAndSources = [PLAYER (CHR ''C'') 1, PLAYER (CHR ''D'') 2] \<rparr>) = 5
   \<and> (\<exists>r1. performResolveAction id
              (demoResolving
                 \<lparr> givenByPlayer = 1, lettersAndSources = [PLAYER (CHR ''C'') 1, PLAYER (CHR ''D'') 2] \<rparr>)
              \<lparr> player = 1, kind = FLIP \<rparr> = Inr (resolvingPhase r1)
         \<and> (\<exists>r2. performResolveAction id r1 \<lparr> player = 2, kind = NONE \<rparr> = Inr r2
               \<and> activeHint r2 = PROPOSING \<lparr> proposedHints = Map.empty \<rparr>
               \<and> hintsRemaining r2 = 4))"
proof -
  define room where "room = demoResolving
      \<lparr> givenByPlayer = 1, lettersAndSources = [PLAYER (CHR ''C'') 1, PLAYER (CHR ''D'') 2] \<rparr>"
  define a1 where "a1 = \<lparr> player = 1, kind = FLIP \<rparr>"
  define a2 where "a2 = \<lparr> player = 2, kind = NONE \<rparr>"
  have refs: "{n. \<exists>letter. PLAYER letter n \<in> set (lettersAndSources (hint (activeHint room)))}
        = {1, 2}"
    by (auto simp: room_def demoResolving_def withActiveHint_def)
  have fresh: "1 \<notin> player ` set (playerActions (activeHint room))"
               "2 \<notin> player ` set (playerActions (activeHint room))"
    by (simp_all add: room_def demoResolving_def withActiveHint_def)
  have exist: "2 \<le> length (players room)"
    by (simp add: room_def demoResolving_def demoRoom_def withActiveHint_def)
  have who: "player a1 = 1" "player a2 = 2"
    by (simp_all add: a1_def a2_def)
  have nofree: "\<forall>k<length (dummies room). int k \<in> dummiesUsed (hint (activeHint room))
        \<longrightarrow> untilFreeHint (dummies room ! k) \<noteq> 1"
    by (simp add: room_def demoResolving_def withActiveHint_def dummiesUsed_def)
  have hr: "hintsRemaining room = 5"
    by (simp add: room_def demoResolving_def demoRoom_def withActiveHint_def)
  from resolve_completes_after_both [OF refs fresh exist who nofree, of id id]
  have "\<exists>r1. performResolveAction id room a1 = Inr (resolvingPhase r1)
           \<and> (\<exists>r2. performResolveAction id r1 a2 = Inr r2
                 \<and> activeHint r2 = PROPOSING \<lparr> proposedHints = Map.empty \<rparr>
                 \<and> hintsRemaining r2 = hintsRemaining room - 1)"
    by blast
  then show ?thesis
    using hr unfolding room_def a1_def a2_def by simp
qed

text \<open>
  C10. \<open>performResolveAction\<close> checks nothing about the action. For every resolving room
  and every action of a player number inside the room, whether or not the hint has a
  letter of that player and whether or not the player has acted before, the call raises
  no error, the hand effect of the action is applied (none for NONE; for FLIP the active
  index goes up by one, with a random letter appended when it was at the last letter;
  for GUESS the hand is cut to \<open>wordLength\<close> letters and a random letter appended), and
  the action is appended to \<open>playerActions\<close>: in the active hint when the room stays
  Resolving, in the new log entry when the hint completes.
\<close>

theorem performResolveAction_unchecked:
  assumes inRange: "1 \<le> player a \<and> player a \<le> length (players room)"
  shows "\<exists>r. performResolveAction g room a = Inr r
     \<and> players r =
         (case kind a of
            NONE \<Rightarrow> players room
          | FLIP \<Rightarrow> (players room)[player a - 1 :=
              (players room ! (player a - 1))
                \<lparr> hand := \<lparr> letters =
                     (if int (activeIndex (hand (players room ! (player a - 1)))) = int (wordLength room) - 1
                      then letters (hand (players room ! (player a - 1)))
                             @ [LETTERS ! (g 0 mod length LETTERS)]
                      else letters (hand (players room ! (player a - 1)))),
                   guesses = guesses (hand (players room ! (player a - 1))),
                   activeIndex = activeIndex (hand (players room ! (player a - 1))) + 1 \<rparr> \<rparr>]
          | GUESS guessed actual \<Rightarrow> (players room)[player a - 1 :=
              (players room ! (player a - 1))
                \<lparr> hand := \<lparr> letters =
                     take (wordLength room) (letters (hand (players room ! (player a - 1))))
                       @ [LETTERS ! (g 0 mod length LETTERS)],
                   guesses = guesses (hand (players room ! (player a - 1))),
                   activeIndex = activeIndex (hand (players room ! (player a - 1))) \<rparr> \<rparr>])
     \<and> (activeHint r = RESOLVING ((activeHint room)
                          \<lparr> playerActions := playerActions (activeHint room) @ [a] \<rparr>)
          \<and> bonuses r =
              (case kind a of
                 GUESS guessed actual \<Rightarrow>
                   if guessed = actual then bonuses room @ [guessed] else bonuses room
               | _ \<Rightarrow> bonuses room)
        \<or> activeHint r = PROPOSING \<lparr> proposedHints = Map.empty \<rparr>
          \<and> hintLog r = hintLog room @
               [\<lparr> hint = hint (activeHint room),
                  playerActions = playerActions (activeHint room) @ [a],
                  activeIndexes = activeIndexes (activeHint room),
                  totalHints = int (length (hintLog room)) + hintsRemaining room \<rparr>])"
proof -
  let ?room = "room\<lparr> activeHint := (activeHint room)
                      \<lparr> playerActions := playerActions (activeHint room) @ [a] \<rparr> \<rparr>"
  from applyResolution_frame [OF inRange, where g = g
      and ah = "(activeHint room)\<lparr> playerActions := playerActions (activeHint room) @ [a] \<rparr>"]
  obtain r g' where ap: "applyResolution g ?room a = Inr (r, g')"
    and ah: "activeHint r = (activeHint room)\<lparr> playerActions := playerActions (activeHint room) @ [a] \<rparr>"
    and hr: "hintsRemaining r = hintsRemaining room"
    and lg: "hintLog r = hintLog room"
    and ps: "players r =
         (case kind a of
            NONE \<Rightarrow> players room
          | FLIP \<Rightarrow> (players room)[player a - 1 :=
              (players room ! (player a - 1))
                \<lparr> hand := \<lparr> letters =
                     (if int (activeIndex (hand (players room ! (player a - 1)))) = int (wordLength room) - 1
                      then letters (hand (players room ! (player a - 1)))
                             @ [LETTERS ! (g 0 mod length LETTERS)]
                      else letters (hand (players room ! (player a - 1)))),
                   guesses = guesses (hand (players room ! (player a - 1))),
                   activeIndex = activeIndex (hand (players room ! (player a - 1))) + 1 \<rparr> \<rparr>]
          | GUESS guessed actual \<Rightarrow> (players room)[player a - 1 :=
              (players room ! (player a - 1))
                \<lparr> hand := \<lparr> letters =
                     take (wordLength room) (letters (hand (players room ! (player a - 1))))
                       @ [LETTERS ! (g 0 mod length LETTERS)],
                   guesses = guesses (hand (players room ! (player a - 1))),
                   activeIndex = activeIndex (hand (players room ! (player a - 1))) \<rparr> \<rparr>])"
    and bs: "bonuses r =
         (case kind a of
            GUESS guessed actual \<Rightarrow> if guessed = actual then bonuses room @ [guessed] else bonuses room
          | _ \<Rightarrow> bonuses room)"
    by blast
  note res = performResolveAction_unfold [OF ap]
  show ?thesis
  proof (cases "playersWithOutstandingAction (activeHint r) = {}")
    case True
    with res have "performResolveAction g room a = Inr (proposingPhase (fullyResolveHint g' r))"
      by simp
    moreover have "players (proposingPhase (fullyResolveHint g' r)) = players r"
      by (simp add: proposingPhase_fields fullyResolveHint_frame)
    moreover have "activeHint (proposingPhase (fullyResolveHint g' r))
        = PROPOSING \<lparr> proposedHints = Map.empty \<rparr>"
      by (simp add: proposingPhase_fields fullyResolveHint_frame)
    moreover have "hintLog (proposingPhase (fullyResolveHint g' r)) = hintLog room @
               [\<lparr> hint = hint (activeHint room),
                  playerActions = playerActions (activeHint room) @ [a],
                  activeIndexes = activeIndexes (activeHint room),
                  totalHints = int (length (hintLog room)) + hintsRemaining room \<rparr>]"
      by (simp add: proposingPhase_fields fullyResolveHint_frame ah hr lg)
    ultimately show ?thesis
      using ps by auto
  next
    case False
    with res have "performResolveAction g room a = Inr (resolvingPhase r)"
      by simp
    moreover have "players (resolvingPhase r) = players r" "bonuses (resolvingPhase r) = bonuses r"
      "activeHint (resolvingPhase r) = RESOLVING ((activeHint room)
                          \<lparr> playerActions := playerActions (activeHint room) @ [a] \<rparr>)"
      by (simp_all add: resolvingPhase_fields ah)
    ultimately show ?thesis
      using ps bs by auto
  qed
qed

theorem performResolveAction_unchecked_witness:
  "performResolveAction id
     ((demoResolving \<lparr> givenByPlayer = 1, lettersAndSources = [PLAYER (CHR ''D'') 2] \<rparr>)
        \<lparr> activeHint :=
            \<lparr> hint = \<lparr> givenByPlayer = 1, lettersAndSources = [PLAYER (CHR ''D'') 2] \<rparr>,
              playerActions = [\<lparr> player = 1, kind = NONE \<rparr>], activeIndexes = [0, 0] \<rparr> \<rparr>)
     \<lparr> player = 1, kind = FLIP \<rparr>
   = Inr \<lparr> wordLength = 3,
           players = [(demoPlayer ''ann'' ''CAT'')
                        \<lparr> hand := \<lparr> letters = ''CAT'', guesses = [None, None, None],
                                     activeIndex = 1 \<rparr> \<rparr>,
                      demoPlayer ''bob'' ''DOG''],
           dummies = [\<lparr> currentLetter = CHR ''S'', untilFreeHint = 1 \<rparr>,
                      \<lparr> currentLetter = CHR ''T'', untilFreeHint = 1 \<rparr>],
           bonuses = ''E'',
           hintsRemaining = 5,
           hintLog = [],
           activeHint = RESOLVING
             \<lparr> hint = \<lparr> givenByPlayer = 1, lettersAndSources = [PLAYER (CHR ''D'') 2] \<rparr>,
               playerActions = [\<lparr> player = 1, kind = NONE \<rparr>, \<lparr> player = 1, kind = FLIP \<rparr>],
               activeIndexes = [0, 0] \<rparr> \<rparr>"
proof -
  define room where "room =
     (demoResolving \<lparr> givenByPlayer = 1, lettersAndSources = [PLAYER (CHR ''D'') 2] \<rparr>)
        \<lparr> activeHint :=
            \<lparr> hint = \<lparr> givenByPlayer = 1, lettersAndSources = [PLAYER (CHR ''D'') 2] \<rparr>,
              playerActions = [\<lparr> player = 1, kind = NONE \<rparr>], activeIndexes = [0, 0] \<rparr> \<rparr>"
  define a where "a = \<lparr> player = 1, kind = FLIP \<rparr>"
  have inRange: "1 \<le> player a \<and> player a \<le> length (players room)"
    by (simp add: a_def room_def demoResolving_def demoRoom_def withActiveHint_def)
  from performResolveAction_unchecked [OF inRange, of id]
  obtain r where "performResolveAction id room a = Inr r"
    by blast
  then show ?thesis
    unfolding a_def room_def
    by (simp add: performResolveAction_def applyResolution_def at_index_def
        demoResolving_def demoRoom_def demoPlayer_def withActiveHint_def resolvingPhase_def
        playersWithOutstandingAction_def)
qed

subsection \<open>Moving to the endgame\<close>

text \<open>
  C8. \<open>moveToEndgame\<close> of a hinting room (whatever its active hint) is an endgame room:
  every player keeps name, \<open>hintsGiven\<close> and the per-position guesses, the hand's letters
  are cut to the first \<open>wordLength\<close> letters, \<open>activeIndex\<close> is \<open>wordLength\<close>, and the
  player gains \<open>guess = []\<close> and \<open>committed = False\<close>; \<open>wordLength\<close>, \<open>dummies\<close>,
  \<open>bonuses\<close> and \<open>hintLog\<close> are those of the input room and \<open>hintsRemaining\<close> is 0.
\<close>

theorem moveToEndgame_frame:
  "wordLength (moveToEndgame room) = wordLength room
   \<and> dummies (moveToEndgame room) = dummies room
   \<and> bonuses (moveToEndgame room) = bonuses room
   \<and> hintLog (moveToEndgame room) = hintLog room
   \<and> hintsRemaining (moveToEndgame room) = 0
   \<and> length (players (moveToEndgame room)) = length (players room)
   \<and> map name (players (moveToEndgame room)) = map name (players room)
   \<and> map hintsGiven (players (moveToEndgame room)) = map hintsGiven (players room)
   \<and> map (letters \<circ> hand) (players (moveToEndgame room))
       = map (take (wordLength room) \<circ> letters \<circ> hand) (players room)
   \<and> map (guesses \<circ> hand) (players (moveToEndgame room)) = map (guesses \<circ> hand) (players room)
   \<and> map (activeIndex \<circ> hand) (players (moveToEndgame room))
       = replicate (length (players room)) (wordLength room)
   \<and> map guess (players (moveToEndgame room)) = replicate (length (players room)) []
   \<and> map committed (players (moveToEndgame room)) = replicate (length (players room)) False"
  by (simp add: moveToEndgame_def comp_def map_replicate_const)

subsection \<open>Endgame guesses\<close>

lemma ownLettersUsed_error: "ownLettersUsed gs used = Inl e \<Longrightarrow> e = InvalidLetters"
  by (induction gs used rule: ownLettersUsed.induct) (auto split: if_splits)

lemma sharedLettersUsed_error: "sharedLettersUsed gs s = Inl e \<Longrightarrow> e = InvalidLetters"
  by (induction gs s rule: sharedLettersUsed.induct) (auto split: if_splits)

lemma allSharedLettersUsed_error: "allSharedLettersUsed ps s = Inl e \<Longrightarrow> e = InvalidLetters"
  by (induction ps arbitrary: s) (auto split: sum.splits dest: sharedLettersUsed_error)

lemma sharedLettersUsed_wildcard:
  "sharedLettersUsed gs (pool, w) = Inr (pool', w') \<Longrightarrow>
   (w' \<longrightarrow> w) \<and> ((\<exists>c. ChoiceWILDCARD c \<in> set gs) \<longrightarrow> w \<and> \<not> w')"
proof (induction gs "(pool, w)" arbitrary: pool w rule: sharedLettersUsed.induct)
  case 1
  then show ?case by simp
next
  case (2 c rest pool w)
  then show ?case by (auto split: if_splits)
next
  case (3 letter rest pool w)
  then show ?case by (auto split: if_splits)
next
  case (4 i rest)
  then show ?case by auto
qed

lemma allSharedLettersUsed_wildcards:
  "allSharedLettersUsed ps (pool, w) = Inr s \<Longrightarrow>
   length (filter (\<lambda>p. \<exists>c. ChoiceWILDCARD c \<in> set (guess p)) ps) \<le> (if w then 1 else 0)"
proof (induction ps arbitrary: pool w)
  case Nil
  then show ?case by simp
next
  case (Cons p ps)
  from Cons.prems obtain pool1 w1 where
    one: "sharedLettersUsed (guess p) (pool, w) = Inr (pool1, w1)"
    and rest: "allSharedLettersUsed ps (pool1, w1) = Inr s"
    by (auto split: sum.splits)
  from sharedLettersUsed_wildcard [OF one]
  have mono: "w1 \<longrightarrow> w" and used: "(\<exists>c. ChoiceWILDCARD c \<in> set (guess p)) \<longrightarrow> w \<and> \<not> w1"
    by simp_all
  from Cons.IH [OF rest]
  have "length (filter (\<lambda>p. \<exists>c. ChoiceWILDCARD c \<in> set (guess p)) ps) \<le> (if w1 then 1 else 0)" .
  with mono used show ?case
    by (auto split: if_splits)
qed

lemma two_satisfy:
  assumes "i < length xs" "j < length xs" "i \<noteq> j" "P (xs ! i)" "P (xs ! j)"
  shows "2 \<le> length (filter P xs)"
proof -
  have "{i, j} \<subseteq> {k. k < length xs \<and> P (xs ! k)}"
    using assms by simp
  then have "card {i, j} \<le> card {k. k < length xs \<and> P (xs ! k)}"
    by (intro card_mono) simp_all
  then show ?thesis
    using assms(3) by (simp add: length_filter_conv_card)
qed

text \<open>
  C7. When the installed guess of one player of an endgame room contains a wildcard
  choice, \<open>setFinalGuess\<close> for any other player of the room with a guess that contains a
  wildcard choice returns \<^verbatim>\<open>null\<close> (\<open>Inr None\<close>): no room is returned, and the room it was
  called on, with the first player's guess, is what the caller still has. And when
  \<open>setFinalGuess\<close> returns a room, the player number is inside the room and the room
  returned is the input room with that player's \<open>guess\<close> replaced and nothing else changed.
\<close>

theorem setFinalGuess_wildcard_exclusive:
  "(1 \<le> p1 \<and> p1 \<le> length (players room) \<and> 1 \<le> p2 \<and> p2 \<le> length (players room)
      \<and> p1 \<noteq> p2
      \<and> ChoiceWILDCARD c1 \<in> set (guess (players room ! (p1 - 1)))
      \<and> ChoiceWILDCARD c2 \<in> set g2
     \<longrightarrow> setFinalGuess room p2 g2 = Inr None)
   \<and> (setFinalGuess room p g = Inr (Some r)
     \<longrightarrow> 1 \<le> p \<and> p \<le> length (players room)
         \<and> r = room\<lparr> players := (players room)[p - 1 := (players room ! (p - 1))\<lparr> guess := g \<rparr>] \<rparr>)"
proof (intro conjI impI)
  assume a: "1 \<le> p1 \<and> p1 \<le> length (players room) \<and> 1 \<le> p2 \<and> p2 \<le> length (players room)
      \<and> p1 \<noteq> p2
      \<and> ChoiceWILDCARD c1 \<in> set (guess (players room ! (p1 - 1)))
      \<and> ChoiceWILDCARD c2 \<in> set g2"
  let ?ps = "(players room)[p2 - 1 := (players room ! (p2 - 1))\<lparr> guess := g2 \<rparr>]"
  let ?new = "room\<lparr> players := ?ps \<rparr>"
  have new: "room\<lparr> players := mapNth (players room) (int p2 - 1) (\<lambda>p. p\<lparr> guess := g2 \<rparr>) \<rparr> = ?new"
    using a by (simp add: mapNth_in_range)
  have at: "at_index ?ps (int p2 - 1) = Some (?ps ! (p2 - 1))"
    using a by (simp add: at_index_player)
  have "2 \<le> length (filter (\<lambda>p. \<exists>c. ChoiceWILDCARD c \<in> set (guess p)) ?ps)"
  proof (rule two_satisfy [of "p1 - 1" _ "p2 - 1"])
    show "p1 - 1 < length ?ps" "p2 - 1 < length ?ps" "p1 - 1 \<noteq> p2 - 1"
      using a by auto
    show "\<exists>c. ChoiceWILDCARD c \<in> set (guess (?ps ! (p1 - 1)))"
      using a by (auto simp: nth_list_update)
    show "\<exists>c. ChoiceWILDCARD c \<in> set (guess (?ps ! (p2 - 1)))"
      using a by (auto simp: nth_list_update)
  qed
  then have "allSharedLettersUsed ?ps (bonuses room, True) \<noteq> Inr s" for s
    using allSharedLettersUsed_wildcards [of ?ps "bonuses room" True s] by auto
  then obtain e where "allSharedLettersUsed ?ps (bonuses room, True) = Inl e"
    by (cases "allSharedLettersUsed ?ps (bonuses room, True)") auto
  moreover from this have "e = InvalidLetters"
    by (rule allSharedLettersUsed_error)
  ultimately have shared: "allSharedLettersUsed ?ps (bonuses room, True) = Inl InvalidLetters"
    by simp
  have "availableLetters ?new p2 = Inl InvalidLetters"
  proof (cases "ownLettersUsed (guess (?ps ! (p2 - 1))) {}")
    case (Inl e)
    then have "e = InvalidLetters" by (rule ownLettersUsed_error)
    with Inl at show ?thesis
      by (simp add: availableLetters_def)
  next
    case (Inr used)
    with at shared show ?thesis
      by (simp add: availableLetters_def)
  qed
  then show "setFinalGuess room p2 g2 = Inr None"
    by (simp add: setFinalGuess_def Let_def new)
next
  assume ok: "setFinalGuess room p g = Inr (Some r)"
  show "1 \<le> p"
  proof (rule ccontr)
    assume "\<not> 1 \<le> p"
    then have "availableLetters (room\<lparr> players := mapNth (players room) (int p - 1) (\<lambda>p. p\<lparr> guess := g \<rparr>) \<rparr>) p
        = Inl TypeError"
      by (simp add: availableLetters_def at_index_def)
    with ok show False
      by (simp add: setFinalGuess_def Let_def)
  qed
  show "p \<le> length (players room)"
  proof (rule ccontr)
    assume "\<not> p \<le> length (players room)"
    then have "availableLetters (room\<lparr> players := mapNth (players room) (int p - 1) (\<lambda>p. p\<lparr> guess := g \<rparr>) \<rparr>) p
        = Inl TypeError"
      by (simp add: availableLetters_def at_index_def mapNth_def)
    with ok show False
      by (simp add: setFinalGuess_def Let_def)
  qed
  from \<open>1 \<le> p\<close> \<open>p \<le> length (players room)\<close>
  have "room\<lparr> players := mapNth (players room) (int p - 1) (\<lambda>p. p\<lparr> guess := g \<rparr>) \<rparr>
      = room\<lparr> players := (players room)[p - 1 := (players room ! (p - 1))\<lparr> guess := g \<rparr>] \<rparr>"
    by (simp add: mapNth_in_range)
  with ok show "r = room\<lparr> players := (players room)[p - 1 := (players room ! (p - 1))\<lparr> guess := g \<rparr>] \<rparr>"
    by (auto simp: setFinalGuess_def Let_def split: sum.splits error.splits)
qed

theorem setFinalGuess_wildcard_exclusive_witness:
  "guess (players demoEndgame ! 0) = [ChoicePLAYER 0, ChoiceWILDCARD (CHR ''*'')]
   \<and> setFinalGuess demoEndgame 2 [ChoicePLAYER 2, ChoiceWILDCARD (CHR ''*'')] = Inr None
   \<and> setFinalGuess demoEndgame 2 [ChoicePLAYER 2, ChoiceBONUS (CHR ''E'')]
     = Inr (Some (demoEndgame\<lparr> players := (players demoEndgame)[1 :=
          (players demoEndgame ! 1)\<lparr> guess := [ChoicePLAYER 2, ChoiceBONUS (CHR ''E'')] \<rparr>] \<rparr>))"
proof -
  have ps: "players demoEndgame =
      [\<lparr> name = ''ann'',
         hand = \<lparr> letters = ''CAT'', guesses = [None, None, None], activeIndex = 3 \<rparr>,
         hintsGiven = 0, guess = [ChoicePLAYER 0, ChoiceWILDCARD (CHR ''*'')], committed = False \<rparr>,
       \<lparr> name = ''bob'',
         hand = \<lparr> letters = ''DOG'', guesses = [None, None, None], activeIndex = 3 \<rparr>,
         hintsGiven = 0, guess = [], committed = False \<rparr>]"
    by (simp add: demoEndgame_def moveToEndgame_def demoRoom_def demoPlayer_def mapNth_def)
  have first: "guess (players demoEndgame ! 0) = [ChoicePLAYER 0, ChoiceWILDCARD (CHR ''*'')]"
    by (simp add: ps)
  have claims: "1 \<le> (1::nat) \<and> 1 \<le> length (players demoEndgame)
      \<and> 1 \<le> (2::nat) \<and> 2 \<le> length (players demoEndgame)
      \<and> (1::nat) \<noteq> 2
      \<and> ChoiceWILDCARD (CHR ''*'') \<in> set (guess (players demoEndgame ! (1 - 1)))
      \<and> ChoiceWILDCARD (CHR ''*'') \<in> set [ChoicePLAYER 2, ChoiceWILDCARD (CHR ''*'')]"
    by (simp add: ps)
  note t = setFinalGuess_wildcard_exclusive
    [of 1 demoEndgame 2 "CHR ''*''" "CHR ''*''" "[ChoicePLAYER 2, ChoiceWILDCARD (CHR ''*'')]"]
  from t claims have rejected:
    "setFinalGuess demoEndgame 2 [ChoicePLAYER 2, ChoiceWILDCARD (CHR ''*'')] = Inr None"
    by blast
  have "\<exists>r. setFinalGuess demoEndgame 2 [ChoicePLAYER 2, ChoiceBONUS (CHR ''E'')] = Inr (Some r)"
    by (simp add: setFinalGuess_def Let_def availableLetters_def at_index_def mapNth_def ps
        demoEndgame_def moveToEndgame_def demoRoom_def)
  then obtain r where ok: "setFinalGuess demoEndgame 2 [ChoicePLAYER 2, ChoiceBONUS (CHR ''E'')] = Inr (Some r)"
    by blast
  with setFinalGuess_wildcard_exclusive
    [of 1 demoEndgame 2 "CHR ''*''" "CHR ''*''" "[ChoicePLAYER 2, ChoiceWILDCARD (CHR ''*'')]"
        2 "[ChoicePLAYER 2, ChoiceBONUS (CHR ''E'')]" r]
  have "r = demoEndgame\<lparr> players := (players demoEndgame)[2 - 1 :=
          (players demoEndgame ! (2 - 1))\<lparr> guess := [ChoicePLAYER 2, ChoiceBONUS (CHR ''E'')] \<rparr>] \<rparr>"
    by blast
  with ok first rejected show ?thesis
    by simp
qed

end
